(* ===== verification/Prelude.thy ===== *)
theory Prelude
  imports Main "HOL-Library.Word" "HOL-Library.Signed_Division"
begin

text \<open>
  Shared vocabulary of the development: machine integer types, the result type of fallible
  code, the fragments of the Rust standard library the components use (decimal printing and
  parsing of unsigned integers, \<open>str::trim\<close>, \<open>str::split\<close>, chunking) and the generic lemmas on
  lists that several components rely on.

  A Rust \<open>String\<close> is a HOL \<open>string\<close> whose characters are read as code points, so the model
  covers the text whose code points are at most 255; every string the modelled code produces
  or compares against is ASCII.
\<close>

named_theorems sc_defs \<open>definitions of the state controller framework, unfolded in its proofs\<close>
named_theorems net_laws \<open>equations that describe address prefixes by the addresses they cover\<close>

type_synonym u8 = "8 word"
type_synonym u32 = "32 word"
type_synonym u64 = "64 word"
type_synonym u128 = "128 word"

section \<open>Results\<close>

text \<open>\<open>Result\<langle>T, E\<rangle>\<close> is \<open>'e + 'a\<close> with \<open>Inl\<close> for \<open>Err\<close>; \<open>bind_res\<close> is the \<open>?\<close> operator.\<close>

fun bind_res :: "'e + 'a \<Rightarrow> ('a \<Rightarrow> 'e + 'b) \<Rightarrow> 'e + 'b" where
  "bind_res (Inl e) f = Inl e"
| "bind_res (Inr x) f = f x"

fun map_err :: "('e \<Rightarrow> 'f) \<Rightarrow> 'e + 'a \<Rightarrow> 'f + 'a" where
  "map_err g (Inl e) = Inl (g e)"
| "map_err g (Inr x) = Inr x"

definition ok_or :: "'a option \<Rightarrow> 'e \<Rightarrow> 'e + 'a" where
  "ok_or x e = (case x of None \<Rightarrow> Inl e | Some v \<Rightarrow> Inr v)"

text \<open>Collecting an iterator of results: the first error, or all values.\<close>

fun collect_res :: "('a \<Rightarrow> 'e + 'b) \<Rightarrow> 'a list \<Rightarrow> 'e + 'b list" where
  "collect_res f [] = Inr []"
| "collect_res f (x # xs) = bind_res (f x) (\<lambda>y. bind_res (collect_res f xs) (\<lambda>ys. Inr (y # ys)))"

text \<open>A loop over a list that stops at the first error.\<close>

fun fold_res :: "('a \<Rightarrow> 's \<Rightarrow> 'e + 's) \<Rightarrow> 'a list \<Rightarrow> 's \<Rightarrow> 'e + 's" where
  "fold_res f [] s = Inr s"
| "fold_res f (x # xs) s = bind_res (f x s) (fold_res f xs)"

lemma bind_res_Inr_iff: "bind_res r f = Inr y \<longleftrightarrow> (\<exists>x. r = Inr x \<and> f x = Inr y)"
  by (cases r) auto

lemma bind_res_Inl_iff: "bind_res r f = Inl e \<longleftrightarrow> r = Inl e \<or> (\<exists>x. r = Inr x \<and> f x = Inl e)"
  by (cases r) auto

lemma ok_or_simps [simp]: "ok_or None e = Inl e" "ok_or (Some v) e = Inr v"
  by (simp_all add: ok_or_def)

lemma ok_or_Inr_iff [simp]: "ok_or x e = Inr v \<longleftrightarrow> x = Some v"
  by (cases x) auto

lemma collect_res_mem: "collect_res f xs = Inr ys \<Longrightarrow> x \<in> set xs \<Longrightarrow> \<exists>y \<in> set ys. f x = Inr y"
  by (induction xs arbitrary: ys) (auto simp: bind_res_Inr_iff)

lemma bind_res_InrE: "bind_res r f = Inr y \<Longrightarrow> (\<And>x. r = Inr x \<Longrightarrow> f x = Inr y \<Longrightarrow> P) \<Longrightarrow> P"
  by (cases r) auto

lemma collect_res_list_all2: "collect_res f xs = Inr ys \<Longrightarrow> list_all2 (\<lambda>x y. f x = Inr y) xs ys"
  by (induction xs arbitrary: ys) (auto simp: bind_res_Inr_iff)

lemma map_of_filter_key: "filter (\<lambda>ir. fst ir = k) al = ir # irs \<Longrightarrow> map_of al k = Some (snd ir)"
  by (induction al) (auto split: if_splits)

section \<open>Decimal numbers\<close>

definition digit_char :: "nat \<Rightarrow> char" where
  "digit_char d = char_of (48 + d)"

definition is_digit :: "char \<Rightarrow> bool" where
  "is_digit c \<longleftrightarrow> 48 \<le> (of_char c :: nat) \<and> (of_char c :: nat) \<le> 57"

definition digit_val :: "char \<Rightarrow> nat" where
  "digit_val c = of_char c - 48"

fun show_nat :: "nat \<Rightarrow> string" where
  "show_nat n = (if n < 10 then [digit_char n] else show_nat (n div 10) @ [digit_char (n mod 10)])"

declare show_nat.simps [simp del]

definition dec_value :: "string \<Rightarrow> nat" where
  "dec_value cs = foldl (\<lambda>acc c. 10 * acc + digit_val c) 0 cs"

lemma of_char_digit_char: "d < 10 \<Longrightarrow> (of_char (digit_char d) :: nat) = 48 + d"
  by (simp add: digit_char_def of_char_of)

lemma is_digit_digit_char [simp]: "d < 10 \<Longrightarrow> is_digit (digit_char d)"
  by (simp add: is_digit_def of_char_digit_char)

lemma digit_val_digit_char [simp]: "d < 10 \<Longrightarrow> digit_val (digit_char d) = d"
  by (simp add: digit_val_def of_char_digit_char)

lemma dec_value_snoc: "dec_value (cs @ [c]) = 10 * dec_value cs + digit_val c"
  by (simp add: dec_value_def)

lemma show_nat_Nil [simp]: "show_nat n \<noteq> []"
  by (subst show_nat.simps) simp

lemma show_nat_digits: "list_all is_digit (show_nat n)"
proof (induction n rule: show_nat.induct)
  case (1 n)
  then show ?case by (cases "n < 10") (subst show_nat.simps, simp)+
qed

lemma dec_value_show_nat [simp]: "dec_value (show_nat n) = n"
proof (induction n rule: show_nat.induct)
  case (1 n)
  show ?case
  proof (cases "n < 10")
    case True
    then show ?thesis by (subst show_nat.simps) (simp add: dec_value_def)
  next
    case False
    with 1 show ?thesis by (subst show_nat.simps) (simp add: dec_value_snoc)
  qed
qed

text \<open>Signed integers print with a leading minus sign.\<close>

definition show_int :: "int \<Rightarrow> string" where
  "show_int i = (if i < 0 then CHR ''-'' # show_nat (nat (- i)) else show_nat (nat i))"

text \<open>
  \<open>u64::from_str\<close>: an optional leading plus sign, then at least one decimal digit and nothing
  else, with the value in range.
\<close>

definition strip_plus :: "string \<Rightarrow> string" where
  "strip_plus s = (case s of [] \<Rightarrow> [] | c # cs \<Rightarrow> if c = CHR ''+'' then cs else s)"

definition parse_u64 :: "string \<Rightarrow> u64 option" where
  "parse_u64 s = (let ds = strip_plus s in
     if ds \<noteq> [] \<and> list_all is_digit ds \<and> dec_value ds < 2 ^ 64
     then Some (of_nat (dec_value ds)) else None)"

lemma is_digit_plus [simp]: "\<not> is_digit CHR ''+''"
  by (simp add: is_digit_def)

lemma strip_plus_digits: "list_all is_digit s \<Longrightarrow> strip_plus s = s"
  by (auto simp: strip_plus_def split: list.splits)

lemma parse_u64_show [simp]: "n < 2 ^ 64 \<Longrightarrow> parse_u64 (show_nat n) = Some (of_nat n)"
  by (simp add: parse_u64_def strip_plus_digits show_nat_digits Let_def)

lemma parse_u64_show_unat [simp]: "parse_u64 (show_nat (unat w)) = Some w"
  using unsigned_less [of w, where ?'a = nat] by simp

section \<open>Text\<close>

definition is_whitespace :: "char \<Rightarrow> bool" where
  "is_whitespace c \<longleftrightarrow> (let n = (of_char c :: nat) in
     9 \<le> n \<and> n \<le> 13 \<or> n = 32 \<or> n = 133 \<or> n = 160)"

definition trim_start :: "string \<Rightarrow> string" where
  "trim_start s = dropWhile is_whitespace s"

definition trim :: "string \<Rightarrow> string" where
  "trim s = rev (trim_start (rev (trim_start s)))"

fun split_on :: "char \<Rightarrow> string \<Rightarrow> string list" where
  "split_on d [] = [[]]"
| "split_on d (c # cs) =
     (if c = d then [] # split_on d cs
      else case split_on d cs of [] \<Rightarrow> [[c]] | p # ps \<Rightarrow> (c # p) # ps)"

lemma trim_id:
  assumes "s \<noteq> []" "\<not> is_whitespace (hd s)" "\<not> is_whitespace (last s)"
  shows "trim s = s"
proof -
  have s: "trim_start s = s"
    using assms(1,2) by (cases s) (auto simp: trim_start_def)
  have "trim_start (rev s) = rev s"
    using assms(1,3) by (cases s rule: rev_cases) (auto simp: trim_start_def)
  with s show ?thesis by (simp add: trim_def)
qed

lemma split_on_Nil [simp]: "split_on d cs \<noteq> []"
  by (induction cs) (auto split: list.splits)

lemma split_on_no_sep: "d \<notin> set cs \<Longrightarrow> split_on d cs = [cs]"
  by (induction cs) auto

lemma split_on_sep: "d \<notin> set a \<Longrightarrow> split_on d (a @ d # b) = a # split_on d b"
  by (induction a) auto

lemma is_digit_not_whitespace: "is_digit c \<Longrightarrow> \<not> is_whitespace c"
  by (auto simp: is_digit_def is_whitespace_def Let_def)

lemma is_digit_not_dash: "is_digit c \<Longrightarrow> c \<noteq> CHR ''-''"
  by (auto simp: is_digit_def)

lemma show_nat_no_dash: "CHR ''-'' \<notin> set (show_nat n)"
  using show_nat_digits [of n] by (auto simp: list_all_iff dest: is_digit_not_dash)

lemma last_show_nat: "is_digit (last (show_nat n))"
  using show_nat_digits [of n] by (auto simp: list_all_iff)

section \<open>Lists\<close>

lemma length_filter_or:
  "length (filter (\<lambda>r. P r \<or> Q r) t) = length (filter P t) + length (filter (\<lambda>r. \<not> P r \<and> Q r) t)"
  by (induction t) auto

text \<open>\<open>slice::chunks(n)\<close>: consecutive pieces of length \<open>n\<close>, the last one possibly shorter.\<close>

function chunks :: "nat \<Rightarrow> 'a list \<Rightarrow> 'a list list" where
  "chunks n xs = (if xs = [] \<or> n = 0 then [] else take n xs # chunks n (drop n xs))"
  by pat_completeness auto
termination
  by (relation "measure (\<lambda>(n, xs). length xs)") auto

declare chunks.simps [simp del]

lemma chunks_Nil [simp]: "chunks n [] = []"
  by (simp add: chunks.simps)

lemma concat_chunks: "0 < n \<Longrightarrow> concat (chunks n xs) = xs"
proof (induction n xs rule: chunks.induct)
  case (1 n xs)
  then show ?case by (cases "xs = []") (auto simp: chunks.simps [of n xs])
qed

lemma chunks_length: "c \<in> set (chunks n xs) \<Longrightarrow> length c \<le> n"
proof (induction n xs rule: chunks.induct)
  case (1 n xs)
  then show ?case by (auto simp: chunks.simps [of n xs] split: if_splits)
qed

lemma fold_chunks:
  assumes "0 < n" and "\<And>a ys zs. f (f a ys) zs = f a (ys @ zs)" and "\<And>a. f a [] = a"
  shows "foldl f a (chunks n xs) = f a xs"
  using assms(1)
proof (induction n xs arbitrary: a rule: chunks.induct)
  case (1 n xs)
  show ?case
  proof (cases "xs = []")
    case True
    with assms(3) show ?thesis by simp
  next
    case False
    with 1 have "foldl f a (chunks n xs) = f (f a (take n xs)) (drop n xs)"
      by (simp add: chunks.simps [of n xs])
    also have "\<dots> = f a xs"
      using assms(2) [of a "take n xs" "drop n xs"] by simp
    finally show ?thesis .
  qed
qed

end
