(* ===== verification/Config_Version.thy ===== *)
theory Config_Version
  imports Prelude
begin

text \<open>
  The crate \<open>config-version\<close> (\<open>src/crates/config-version/src/lib.rs\<close>): versions of the
  configuration and of the lifecycle state of every managed object, their increments, and
  the text format in which the database stores them.

  The date-time type is the \<open>chrono\<close> crate's, which is not part of the repository: it is a
  type variable \<open>'d\<close>, and the two operations the code calls, \<open>DateTime::from_timestamp\<close> and
  \<open>DateTime::timestamp_micros\<close>, are arguments of the definitions. The locale
  \<open>chrono_api\<close> states the documented behaviour the code relies on.
\<close>

section \<open>Data\<close>

record 'd config_version =
  version_nr :: u64
  timestamp :: 'd

record ('a, 'd) versioned =
  ver_value :: 'a
  ver_version :: "'d config_version"

record 'd config_version_change =
  cvc_current :: "'d config_version"
  cvc_new :: "'d config_version"

datatype config_version_parse_error = VersionFormat string | DateTimeError int nat

definition versioned_take :: "('a, 'd) versioned \<Rightarrow> 'a \<times> 'd config_version" where
  "versioned_take v = (ver_value v, ver_version v)"

section \<open>Creating and changing versions\<close>

text \<open>
  \<open>now()\<close>: the system clock, given as nanoseconds since the Unix epoch, with the nanoseconds
  below the microsecond cut off. \<open>None\<close> is the panic of the two \<open>expect\<close> calls.
\<close>

definition now :: "(int \<Rightarrow> nat \<Rightarrow> 'd option) \<Rightarrow> int \<Rightarrow> 'd option" where
  "now from_timestamp clock =
     (if clock < 0 then None
      else let n = nat clock; n' = n - n mod 1000
           in from_timestamp (int (n' div 1000000000)) (n' mod 1000000000))"

definition tzero :: "(int \<Rightarrow> nat \<Rightarrow> 'd option) \<Rightarrow> 'd option" where
  "tzero from_timestamp =
     (let n = (0::nat); n' = n - n mod 1000
      in from_timestamp (int (n' div 1000000000)) (n' mod 1000000000))"

definition initial :: "(int \<Rightarrow> nat \<Rightarrow> 'd option) \<Rightarrow> int \<Rightarrow> 'd config_version option" where
  "initial from_timestamp clock =
     map_option (\<lambda>t. \<lparr>version_nr = 1, timestamp = t\<rparr>) (now from_timestamp clock)"

definition new_version :: "(int \<Rightarrow> nat \<Rightarrow> 'd option) \<Rightarrow> int \<Rightarrow> u64 \<Rightarrow> 'd config_version option" where
  "new_version from_timestamp clock nr =
     map_option (\<lambda>t. \<lparr>version_nr = nr, timestamp = t\<rparr>) (now from_timestamp clock)"

definition invalid :: "(int \<Rightarrow> nat \<Rightarrow> 'd option) \<Rightarrow> 'd config_version option" where
  "invalid from_timestamp =
     map_option (\<lambda>t. \<lparr>version_nr = 0, timestamp = t\<rparr>) (tzero from_timestamp)"

text \<open>
  \<open>increment\<close>: \<open>nr = version_nr.wrapping_add(1); nr |= (nr == 0) as u64\<close>.
  The result of \<open>now()\<close> is the second argument.
\<close>

definition increment_nr :: "u64 \<Rightarrow> u64" where
  "increment_nr n = (let nr = n + 1 in or nr (if nr = 0 then 1 else 0))"

definition increment :: "'d config_version \<Rightarrow> 'd \<Rightarrow> 'd config_version" where
  "increment v t = \<lparr>version_nr = increment_nr (version_nr v), timestamp = t\<rparr>"

text \<open>
  \<open>incremental_change\<close> adds 1 with the overflow check of the workspace profile (the panic is
  \<open>None\<close>) and takes \<open>Utc::now()\<close>, passed as \<open>utc_now\<close>, as it is.
\<close>

definition incremental_change :: "'d config_version \<Rightarrow> 'd \<Rightarrow> 'd config_version_change option" where
  "incremental_change v utc_now =
     (if version_nr v = - 1 then None
      else Some \<lparr>cvc_current = v, cvc_new = \<lparr>version_nr = version_nr v + 1, timestamp = utc_now\<rparr>\<rparr>)"

definition min_by_timestamp ::
    "'d::linorder config_version \<Rightarrow> 'd config_version \<Rightarrow> 'd config_version" where
  "min_by_timestamp a b =
     (if timestamp a < timestamp b then a
      else if timestamp a = timestamp b then
        (if version_nr a < version_nr b then a
         else if version_nr a = version_nr b then a else b)
      else b)"

section \<open>The database format\<close>

definition version_string :: "('d \<Rightarrow> int) \<Rightarrow> 'd config_version \<Rightarrow> string" where
  "version_string timestamp_micros v =
     ''V'' @ show_nat (unat (version_nr v)) @ ''-T'' @ show_int (timestamp_micros (timestamp v))"

definition from_str ::
    "(int \<Rightarrow> nat \<Rightarrow> 'd option) \<Rightarrow> string \<Rightarrow> config_version_parse_error + 'd config_version" where
  "from_str from_timestamp s =
     (case split_on (CHR ''-'') (trim s) of
        [version_nr_str, timestamp_str] \<Rightarrow>
          (if version_nr_str = [] \<or> hd version_nr_str \<noteq> CHR ''V''
              \<or> timestamp_str = [] \<or> hd timestamp_str \<noteq> CHR ''T''
           then Inl (VersionFormat s)
           else bind_res (ok_or (parse_u64 (tl version_nr_str)) (VersionFormat s)) (\<lambda>nr.
                bind_res (ok_or (parse_u64 (tl timestamp_str)) (VersionFormat s)) (\<lambda>ts.
                  let secs = ts div 1000000; usecs = ts mod 1000000;
                      secs_i64 = sint secs; nanos = unat (ucast (usecs * 1000) :: u32)
                  in case from_timestamp secs_i64 nanos of
                       None \<Rightarrow> Inl (DateTimeError secs_i64 nanos)
                     | Some d \<Rightarrow> Inr \<lparr>version_nr = nr, timestamp = d\<rparr>)))
      | _ \<Rightarrow> Inl (VersionFormat s))"

section \<open>Human readable durations\<close>

definition plural :: "int \<Rightarrow> string \<Rightarrow> string" where
  "plural val period =
     (if val = 1 then show_int val @ '' '' @ period else show_int val @ '' '' @ period @ ''s'')"

fun join :: "string \<Rightarrow> string list \<Rightarrow> string" where
  "join sep [] = []"
| "join sep [p] = p"
| "join sep (p # q # ps) = p @ sep @ join sep (q # ps)"

text \<open>The argument is \<open>d.num_seconds()\<close>; \<open>/\<close> and \<open>%\<close> on \<open>i64\<close> truncate towards zero.\<close>

definition format_duration :: "int \<Rightarrow> string" where
  "format_duration secs =
     (let days = secs sdiv 86400;
          hours = (secs smod 86400) sdiv 3600;
          minutes = (secs smod 3600) sdiv 60;
          seconds = secs smod 60;
          parts = (if days > 0 then [plural days ''day''] else [])
                @ (if hours > 0 then [plural hours ''hour''] else [])
                @ (if minutes > 0 then [plural minutes ''minute''] else []);
          parts = (if parts = [] then [plural seconds ''second''] else parts)
      in case parts of
           [] \<Rightarrow> ''0 seconds''
         | [p] \<Rightarrow> p
         | _ \<Rightarrow> join '', '' (butlast parts) @ '' and '' @ last parts)"

section \<open>Reading a printed version\<close>

lemma sint_secs: "sint (w div 1000000 :: u64) = int (unat w div 1000000)"
proof -
  have u: "uint (w div 1000000) = int (unat w div 1000000)"
    by (simp add: uint_div of_nat_div)
  have "unat w < 2 ^ 64" using unsigned_less [of w, where ?'a = nat] by simp
  then have "int (unat w div 1000000) < 2 ^ 63" by simp
  with u show ?thesis
    by (simp add: sint_uint signed_take_bit_int_eq_self)
qed

lemma unat_nanos: "unat (ucast ((w mod 1000000) * 1000 :: u64) :: u32) = (unat w mod 1000000) * 1000"
proof -
  have m: "unat (w mod 1000000) = unat w mod 1000000"
    by (simp add: unat_mod)
  have "unat ((w mod 1000000) * 1000 :: u64) = (unat w mod 1000000) * 1000"
    by (simp add: unat_word_ariths m mod_less)
  then show ?thesis by (simp add: unsigned_ucast_eq take_bit_eq_mod)
qed

text \<open>The two halves of a printed version, when the microseconds are not negative.\<close>

lemma version_string_shape:
  assumes "timestamp_micros (timestamp v) = int m"
  shows "split_on (CHR ''-'') (trim (version_string timestamp_micros v)) =
           [CHR ''V'' # show_nat (unat (version_nr v)), CHR ''T'' # show_nat m]"
proof -
  have str: "version_string timestamp_micros v =
      (CHR ''V'' # show_nat (unat (version_nr v))) @ CHR ''-'' # CHR ''T'' # show_nat m"
    using assms by (simp add: version_string_def show_int_def)
  have "\<not> is_whitespace (last (show_nat m))"
    by (rule is_digit_not_whitespace [OF last_show_nat])
  then have "trim (version_string timestamp_micros v) = version_string timestamp_micros v"
    by (intro trim_id) (simp_all add: str is_whitespace_def)
  then show ?thesis
    by (simp add: str split_on_sep split_on_no_sep show_nat_no_dash)
qed

lemma from_str_version_string:
  assumes "timestamp_micros (timestamp v) = int m" and "m < 2 ^ 64"
    and "from_timestamp (int (m div 1000000)) ((m mod 1000000) * 1000) = Some (timestamp v)"
  shows "from_str from_timestamp (version_string timestamp_micros v) = Inr v"
proof -
  have "unat (of_nat m :: u64) = m"
    using assms(2) by (simp add: unsigned_of_nat take_bit_nat_eq_self)
  then show ?thesis
    using assms(2,3)
    by (simp add: from_str_def version_string_shape [of timestamp_micros v m, OF assms(1)] Let_def sint_secs unat_nanos)
qed

section \<open>The date-time interface\<close>

locale chrono_api =
  fixes from_timestamp :: "int \<Rightarrow> nat \<Rightarrow> 'd option"
    and timestamp_micros :: "'d \<Rightarrow> int"
  assumes micros_of_timestamp:
    "from_timestamp s n = Some d \<Longrightarrow> n < 1000000000 \<Longrightarrow>
       timestamp_micros d = s * 1000000 + int (n div 1000)"
begin

lemma now_micros:
  assumes "now from_timestamp clock = Some t"
  shows "timestamp_micros t = clock div 1000"
    and "from_timestamp (clock div 1000 div 1000000) (nat (clock div 1000 mod 1000000) * 1000) = Some t"
proof -
  define m where "m = nat clock div 1000"
  from assms have pos: "0 \<le> clock" by (auto simp: now_def split: if_splits)
  have cut: "nat clock - nat clock mod 1000 = 1000 * m"
    by (simp add: m_def minus_mod_eq_mult_div)
  have secs: "1000 * m div 1000000000 = m div 1000000"
    and nanos: "1000 * m mod 1000000000 = (m mod 1000000) * 1000"
    using div_mult_mult1 [of 1000 m 1000000] mult_mod_right [of 1000 m 1000000] by simp_all
  from assms pos cut have ft: "from_timestamp (int (m div 1000000)) ((m mod 1000000) * 1000) = Some t"
    by (simp add: now_def Let_def secs nanos)
  have m: "clock div 1000 = int m"
    using pos by (simp add: m_def nat_div_distrib)
  have "timestamp_micros t = int (m div 1000000) * 1000000 + int (m mod 1000000)"
    using micros_of_timestamp [OF ft] by simp
  also have "\<dots> = int m" using div_mult_mod_eq [of m 1000000] by linarith
  finally show "timestamp_micros t = clock div 1000" using m by simp
  show "from_timestamp (clock div 1000 div 1000000) (nat (clock div 1000 mod 1000000) * 1000) = Some t"
    using ft by (simp add: m zdiv_int nat_mod_distrib)
qed

lemma round_trip_now:
  assumes t: "now from_timestamp clock = Some t" and "clock < 2 ^ 64 * 1000"
  shows "from_str from_timestamp (version_string timestamp_micros \<lparr>version_nr = nr, timestamp = t\<rparr>)
           = Inr \<lparr>version_nr = nr, timestamp = t\<rparr>"
proof (rule from_str_version_string [of _ _ "nat (clock div 1000)"])
  have pos: "0 \<le> clock div 1000" using t by (simp add: now_def split: if_splits)
  then show "timestamp_micros (timestamp \<lparr>version_nr = nr, timestamp = t\<rparr>) = int (nat (clock div 1000))"
    using now_micros(1) [OF t] by simp
  show "nat (clock div 1000) < 2 ^ 64" using assms(2) pos by (simp add: nat_less_iff)
  show "from_timestamp (int (nat (clock div 1000) div 1000000)) (nat (clock div 1000) mod 1000000 * 1000)
          = Some (timestamp \<lparr>version_nr = nr, timestamp = t\<rparr>)"
    using now_micros(2) [OF t] pos by (simp add: nat_mod_distrib zdiv_int)
qed

lemma reparse:
  assumes "from_str from_timestamp s = Inr v"
  shows "from_str from_timestamp (version_string timestamp_micros v) = Inr v"
proof -
  from assms obtain nr ts d where d: "from_timestamp (sint (ts div 1000000 :: u64))
        (unat (ucast ((ts mod 1000000) * 1000) :: u32)) = Some d"
    and v: "v = \<lparr>version_nr = nr, timestamp = d\<rparr>"
    by (auto simp: from_str_def bind_res_Inr_iff Let_def split: list.splits if_splits option.splits)
  define m where "m = unat ts"
  have m: "m < 2 ^ 64" using unsigned_less [of ts, where ?'a = nat] by (simp add: m_def)
  have ft: "from_timestamp (int (m div 1000000)) ((m mod 1000000) * 1000) = Some d"
    using d by (simp add: sint_secs unat_nanos m_def)
  have "timestamp_micros d = int (m div 1000000) * 1000000 + int (m mod 1000000)"
    using micros_of_timestamp [OF ft] by simp
  then have "timestamp_micros d = int m" using div_mult_mod_eq [of m 1000000] by linarith
  with m ft show ?thesis by (intro from_str_version_string [of _ _ m]) (simp_all add: v)
qed

end

text \<open>
  A reference date-time: nanoseconds since the epoch, with the range of years the interface
  documents (about 262\,000 years around the epoch). It satisfies the contract.
\<close>

definition ref_from_timestamp :: "int \<Rightarrow> nat \<Rightarrow> int option" where
  "ref_from_timestamp s n =
     (if \<bar>s\<bar> \<le> 8210000000000 \<and> n < 2000000000 then Some (s * 1000000000 + int n) else None)"

definition ref_timestamp_micros :: "int \<Rightarrow> int" where
  "ref_timestamp_micros d = d div 1000"

interpretation utc: chrono_api ref_from_timestamp ref_timestamp_micros
proof
  fix s :: int and n :: nat and d :: int
  assume "ref_from_timestamp s n = Some d"
  then have d: "d = s * 1000000000 + int n"
    by (auto simp: ref_from_timestamp_def split: if_splits)
  have "(int n + (s * 1000000) * 1000) div 1000 = s * 1000000 + int n div 1000"
    by (rule div_mult_self1) simp
  then show "ref_timestamp_micros d = s * 1000000 + int (n div 1000)"
    by (simp add: ref_timestamp_micros_def d algebra_simps zdiv_int)
qed

section \<open>Properties\<close>

text \<open>
  C27. A version stamped with the current time survives the database: printing it with
  \<open>version_string\<close> and parsing the text with \<open>from_str\<close> gives the same version back, number and
  timestamp, for every clock reading before the microseconds overflow 64 bits.
\<close>

theorem config_version_round_trip:
  assumes "chrono_api ft tm" and "now ft clock = Some t" and "clock < 2 ^ 64 * 1000"
  shows "from_str ft (version_string tm (increment v t)) = Inr (increment v t)"
  using chrono_api.round_trip_now [OF assms] by (simp add: increment_def)

theorem config_version_round_trip_witness:
  "from_str ref_from_timestamp
     (version_string ref_timestamp_micros
        (increment \<lparr>version_nr = 41, timestamp = 0\<rparr> 1700000000123456000))
   = Inr \<lparr>version_nr = 42, timestamp = 1700000000123456000\<rparr>"
proof -
  have "now ref_from_timestamp 1700000000123456789 = Some 1700000000123456000"
    by (simp add: now_def ref_from_timestamp_def Let_def)
  from config_version_round_trip [OF utc.chrono_api_axioms this, of "\<lparr>version_nr = 41, timestamp = 0\<rparr>"]
  show ?thesis by (simp add: increment_def increment_nr_def)
qed

text \<open>
  C29. Whatever text \<open>from_str\<close> accepts (surrounding blanks, leading zeros or plus signs
  included), the version it returns prints to a text that parses to the same version: parsing
  followed by printing is a normal form of the accepted texts.
\<close>

theorem config_version_reparse:
  assumes "chrono_api ft tm" and "from_str ft s = Inr v"
  shows "from_str ft (version_string tm v) = Inr v"
  using assms by (rule chrono_api.reparse)

theorem config_version_reparse_witness:
  "from_str ref_from_timestamp '' V+07-T0001000000 '' = Inr \<lparr>version_nr = 7, timestamp = 1000000000\<rparr>
   \<and> from_str ref_from_timestamp
       (version_string ref_timestamp_micros \<lparr>version_nr = 7, timestamp = 1000000000\<rparr>)
     = Inr \<lparr>version_nr = 7, timestamp = 1000000000\<rparr>"
proof -
  have p: "from_str ref_from_timestamp '' V+07-T0001000000 ''
           = Inr \<lparr>version_nr = 7, timestamp = 1000000000\<rparr>"
    by (simp add: from_str_def trim_def trim_start_def is_whitespace_def parse_u64_def strip_plus_def
        is_digit_def digit_val_def dec_value_def ref_from_timestamp_def Let_def)
  with config_version_reparse [OF utc.chrono_api_axioms p] show ?thesis by simp
qed

text \<open>
  \<open>increment\<close> moves the number to its successor and skips zero, the reserved number, when
  the 64-bit counter wraps around: a version produced by the system is never number 0.
\<close>

lemma increment_successor_skips_zero:
  "unat (version_nr (increment v t)) =
     (if version_nr v = - 1 then 1 else unat (version_nr v) + 1)"
proof (cases "version_nr v = - 1")
  case True
  then show ?thesis by (simp add: increment_def increment_nr_def)
next
  case False
  then have "version_nr v + 1 \<noteq> 0" by (metis add_eq_0_iff2)
  with False show ?thesis
    by (simp add: increment_def increment_nr_def Let_def unatSuc add.commute [of _ 1])
qed


end
