(* ===== verification/Work_Queue.thy ===== *)
theory Work_Queue
  imports Config_Version "HOL-Library.List_Lexorder" "HOL-Library.Char_ord"
begin

text \<open>
  The queue of objects that wait for state handling
  (\<open>src/crates/state-controller/src/controller/db.rs\<close>, \<open>controller.rs\<close> and
  \<open>controller/enqueuer.rs\<close>): one database table per object type, shared by all processors.

  The table is a list of rows, with \<open>object_id\<close> as primary key. Each definition is the SQL
  statement of the function of the same name. Times are the database clock \<open>now()\<close>, in any
  fixed unit. Rows another transaction has locked at that moment are the argument \<open>locked\<close>
  (\<open>SKIP LOCKED\<close>). Rows with equal start times come in table order.

  The locale \<open>task_queue\<close> is the contract the processors rely on: what each operation does to
  the owner and the start time of every object.
\<close>

section \<open>Data\<close>

record queued_object =
  object_id :: string
  processed_by :: "string option"
  processing_started_at :: int

type_synonym queue_table = "queued_object list"

definition queued_ids :: "queue_table \<Rightarrow> string set" where
  "queued_ids t = object_id ` set t"

definition primary_key :: "queue_table \<Rightarrow> bool" where
  "primary_key t \<longleftrightarrow> distinct (map object_id t)"

definition BIND_LIMIT :: nat where
  "BIND_LIMIT = 32768"

definition OBJECTS_PER_QUERY :: nat where
  "OBJECTS_PER_QUERY = BIND_LIMIT div 32"

lemma OBJECTS_PER_QUERY_pos: "0 < OBJECTS_PER_QUERY"
  by (simp add: OBJECTS_PER_QUERY_def BIND_LIMIT_def)

section \<open>Operations\<close>

text \<open>\<open>INSERT INTO t(object_id) VALUES ids ON CONFLICT (object_id) DO NOTHING\<close>; the defaults are
  \<open>processed_by = NULL\<close> and \<open>processing_started_at = now()\<close>. The number is \<open>rows_affected\<close>.\<close>

fun insert_on_conflict_do_nothing ::
    "int \<Rightarrow> queue_table \<times> nat \<Rightarrow> string list \<Rightarrow> queue_table \<times> nat" where
  "insert_on_conflict_do_nothing clk acc [] = acc"
| "insert_on_conflict_do_nothing clk (t, n) (i # is) =
     (if i \<in> set (map object_id t) then insert_on_conflict_do_nothing clk (t, n) is
      else insert_on_conflict_do_nothing clk
             (t @ [\<lparr>object_id = i, processed_by = None, processing_started_at = clk\<rparr>], Suc n) is)"

definition queue_objects :: "int \<Rightarrow> queue_table \<Rightarrow> string list \<Rightarrow> queue_table \<times> nat" where
  "queue_objects clk t queued_objects =
     foldl (insert_on_conflict_do_nothing clk) (t, 0) (chunks OBJECTS_PER_QUERY (sort queued_objects))"

definition is_available :: "int \<Rightarrow> int \<Rightarrow> queued_object \<Rightarrow> bool" where
  "is_available max_outdated clk r \<longleftrightarrow>
     processed_by r = None \<or> processing_started_at r + max_outdated < clk"

definition dequeued_ids ::
    "(string \<Rightarrow> bool) \<Rightarrow> int \<Rightarrow> int \<Rightarrow> nat \<Rightarrow> queue_table \<Rightarrow> string list" where
  "dequeued_ids locked max_outdated clk count t =
     map object_id (take count (sort_key processing_started_at
       (filter (\<lambda>r. is_available max_outdated clk r \<and> \<not> locked (object_id r)) t)))"

definition acquire_queued_objects ::
    "(string \<Rightarrow> bool) \<Rightarrow> int \<Rightarrow> queue_table \<Rightarrow> nat \<Rightarrow> string \<Rightarrow> int \<Rightarrow> queue_table \<times> queued_object list" where
  "acquire_queued_objects locked clk t count processor_id max_outdated =
     (let ids = dequeued_ids locked max_outdated clk count t;
          upd = (\<lambda>r. r\<lparr>processed_by := Some processor_id, processing_started_at := clk\<rparr>)
      in (map (\<lambda>r. if object_id r \<in> set ids then upd r else r) t,
          map upd (filter (\<lambda>r. object_id r \<in> set ids) t)))"

definition delete_where :: "string \<Rightarrow> queue_table \<times> nat \<Rightarrow> string list \<Rightarrow> queue_table \<times> nat" where
  "delete_where processor_id acc ids =
     (let hit = (\<lambda>r. object_id r \<in> set ids \<and> processed_by r = Some processor_id)
      in (filter (\<lambda>r. \<not> hit r) (fst acc), snd acc + length (filter hit (fst acc))))"

definition delete_queued_objects :: "queue_table \<Rightarrow> string list \<Rightarrow> string \<Rightarrow> queue_table \<times> nat" where
  "delete_queued_objects t object_ids processor_id =
     foldl (delete_where processor_id) (t, 0) (chunks OBJECTS_PER_QUERY object_ids)"

text \<open>\<open>Enqueuer::enqueue_object\<close>: whether the object was not queued before.\<close>

definition enqueue_object :: "int \<Rightarrow> queue_table \<Rightarrow> string \<Rightarrow> queue_table \<times> bool" where
  "enqueue_object clk t i = (let (t', n) = queue_objects clk t [i] in (t', n = 1))"

section \<open>What the statements do to the table\<close>

definition view :: "queue_table \<Rightarrow> string \<Rightarrow> (string option \<times> int) option" where
  "view t = map_of (map (\<lambda>r. (object_id r, (processed_by r, processing_started_at r))) t)"

lemma queued_ids_simps [simp]:
  "queued_ids [] = {}" "queued_ids (r # t) = insert (object_id r) (queued_ids t)"
  "queued_ids (t @ u) = queued_ids t \<union> queued_ids u"
  by (auto simp: queued_ids_def)

lemma dom_view: "dom (view t) = queued_ids t"
  by (simp add: view_def queued_ids_def dom_map_of_conv_image_fst image_comp comp_def)

lemma view_None_iff: "view t i = None \<longleftrightarrow> i \<notin> queued_ids t"
  using dom_view [of t] by blast

lemma view_row:
  "primary_key t \<Longrightarrow> r \<in> set t \<Longrightarrow> view t (object_id r) = Some (processed_by r, processing_started_at r)"
  by (auto simp: view_def primary_key_def comp_def intro: map_of_is_SomeI)

lemma view_SomeD:
  "view t i = Some (p, s) \<Longrightarrow>
     \<exists>r \<in> set t. object_id r = i \<and> processed_by r = p \<and> processing_started_at r = s"
  by (auto simp: view_def dest!: map_of_SomeD)

lemma insert_on_conflict_append:
  "insert_on_conflict_do_nothing clk (insert_on_conflict_do_nothing clk acc xs) ys
     = insert_on_conflict_do_nothing clk acc (xs @ ys)"
proof (induction xs arbitrary: acc)
  case (Cons x xs)
  then show ?case by (cases acc) simp
qed simp

lemma queue_objects_eq:
  "queue_objects clk t is = insert_on_conflict_do_nothing clk (t, 0) (sort is)"
  unfolding queue_objects_def
  by (rule fold_chunks [OF OBJECTS_PER_QUERY_pos insert_on_conflict_append]) simp

fun fresh :: "string set \<Rightarrow> string list \<Rightarrow> string list" where
  "fresh S [] = []"
| "fresh S (i # is) = (if i \<in> S then fresh S is else i # fresh (insert i S) is)"

lemma set_fresh [simp]: "set (fresh S is) = set is - S"
  by (induction "is" arbitrary: S) auto

lemma distinct_fresh [simp]: "distinct (fresh S is)"
  by (induction "is" arbitrary: S) auto

lemma length_fresh: "length (fresh S is) = card (set is - S)"
  using distinct_card [OF distinct_fresh, of S "is"] by simp

lemma insert_on_conflict_eq:
  "insert_on_conflict_do_nothing clk (t, n) is =
     (t @ map (\<lambda>i. \<lparr>object_id = i, processed_by = None, processing_started_at = clk\<rparr>)
            (fresh (queued_ids t) is),
      n + length (fresh (queued_ids t) is))"
  by (induction "is" arbitrary: t n) (simp_all add: queued_ids_def)

lemma primary_key_queue_objects:
  "primary_key t \<Longrightarrow> primary_key (fst (queue_objects clk t is))"
  by (auto simp: primary_key_def queue_objects_eq insert_on_conflict_eq comp_def queued_ids_def)

lemma view_queue_objects:
  "view (fst (queue_objects clk t is)) i =
     (case view t i of Some x \<Rightarrow> Some x | None \<Rightarrow> if i \<in> set is then Some (None, clk) else None)"
proof -
  have m: "map_of (map (\<lambda>i. (i, (None, clk))) xs) i = (if i \<in> set xs then Some (None, clk) else None)"
    for xs :: "string list"
    by (induction xs) auto
  show ?thesis
    by (auto simp: queue_objects_eq insert_on_conflict_eq view_def map_add_def comp_def m
        split: option.splits)
       (metis (no_types) not_None_eq option.distinct(1) view_None_iff view_def)
qed

lemma snd_queue_objects: "snd (queue_objects clk t is) = card (set is - queued_ids t)"
  by (simp add: queue_objects_eq insert_on_conflict_eq length_fresh)

text \<open>Acquiring.\<close>

lemma dequeued_ids_props:
  assumes "primary_key t"
  shows "distinct (dequeued_ids locked mx clk n t)"
    and "length (dequeued_ids locked mx clk n t) \<le> n"
    and "i \<in> set (dequeued_ids locked mx clk n t) \<Longrightarrow>
           \<exists>r \<in> set t. object_id r = i \<and> is_available mx clk r \<and> \<not> locked i"
proof -
  let ?c = "sort_key processing_started_at
       (filter (\<lambda>r. is_available mx clk r \<and> \<not> locked (object_id r)) t)"
  have "distinct (map object_id ?c)"
    using assms by (auto simp: primary_key_def distinct_map intro: inj_on_subset)
  then show "distinct (dequeued_ids locked mx clk n t)"
    by (simp add: dequeued_ids_def distinct_take flip: take_map)
  show "length (dequeued_ids locked mx clk n t) \<le> n"
    by (simp add: dequeued_ids_def)
  show "\<exists>r \<in> set t. object_id r = i \<and> is_available mx clk r \<and> \<not> locked i"
    if "i \<in> set (dequeued_ids locked mx clk n t)"
    using that by (auto simp: dequeued_ids_def dest!: in_set_takeD)
qed

lemma map_view_update:
  "view (map (\<lambda>r. if object_id r \<in> S then r\<lparr>processed_by := p, processing_started_at := c\<rparr> else r) t) i
     = (if i \<in> S \<and> i \<in> queued_ids t then Some (p, c) else view t i)"
  by (induction t) (auto simp: view_def)

lemma acquire_returns_dequeued:
  assumes "primary_key t" and "acquire_queued_objects locked clk t n p mx = (t', rs)"
  shows "object_id ` set rs = set (dequeued_ids locked mx clk n t)"
proof -
  have "object_id ` set rs = queued_ids t \<inter> set (dequeued_ids locked mx clk n t)"
    using assms(2) by (auto simp: acquire_queued_objects_def Let_def queued_ids_def image_image)
  then show ?thesis
    using dequeued_ids_props(3) [OF assms(1)] by (fastforce simp: queued_ids_def)
qed

lemma acquire_view:
  assumes "primary_key t" and "acquire_queued_objects locked clk t n p mx = (t', rs)"
  shows "primary_key t'"
    and "view t' i = (if i \<in> object_id ` set rs then Some (Some p, clk) else view t i)"
    and "distinct (map object_id rs)" and "length rs \<le> n"
    and "i \<in> object_id ` set rs \<Longrightarrow>
           \<not> locked i \<and> (\<exists>own s. view t i = Some (own, s) \<and> (own = None \<or> s + mx < clk))"
    and "r \<in> set rs \<Longrightarrow> processed_by r = Some p \<and> processing_started_at r = clk"
proof -
  let ?ids = "dequeued_ids locked mx clk n t"
  let ?upd = "\<lambda>r. r\<lparr>processed_by := Some p, processing_started_at := clk\<rparr>"
  have t': "t' = map (\<lambda>r. if object_id r \<in> set ?ids then ?upd r else r) t"
    and rs: "rs = map ?upd (filter (\<lambda>r. object_id r \<in> set ?ids) t)"
    using assms(2) by (simp_all add: acquire_queued_objects_def Let_def)
  have sub: "set ?ids \<subseteq> queued_ids t"
    using dequeued_ids_props(3) [OF assms(1)] by (fastforce simp: queued_ids_def)
  have ids: "object_id ` set rs = set ?ids"
    by (rule acquire_returns_dequeued [OF assms])
  show "primary_key t'"
    using assms(1) by (auto simp: primary_key_def t' comp_def if_distrib cong: if_cong map_cong)
  show "view t' i = (if i \<in> object_id ` set rs then Some (Some p, clk) else view t i)"
    using sub by (auto simp: t' ids map_view_update)
  show d: "distinct (map object_id rs)"
    using assms(1) by (auto simp: rs primary_key_def comp_def distinct_map inj_on_def)
  have "length rs = card (set ?ids)"
    using distinct_card [OF d] ids by simp
  also have "\<dots> \<le> n"
    using dequeued_ids_props(1,2) [OF assms(1)] by (metis distinct_card)
  finally show "length rs \<le> n" .
  show "\<not> locked i \<and> (\<exists>own s. view t i = Some (own, s) \<and> (own = None \<or> s + mx < clk))"
    if "i \<in> object_id ` set rs"
    using that dequeued_ids_props(3) [OF assms(1)] view_row [OF assms(1)]
    unfolding ids is_available_def by metis
  show "processed_by r = Some p \<and> processing_started_at r = clk" if "r \<in> set rs"
    using that by (auto simp: rs)
qed

text \<open>The queue is served oldest start time first, and nothing available is left over while
  there is room.\<close>

lemma sorted_key_take_drop:
  assumes "x \<in> set (take n (sort_key f xs))" and "y \<in> set (drop n (sort_key f xs))"
  shows "f x \<le> f y"
proof -
  have "sorted (map f (take n (sort_key f xs)) @ map f (drop n (sort_key f xs)))"
    by (metis append_take_drop_id map_append sorted_sort_key)
  with assms show ?thesis by (auto simp: sorted_append)
qed

lemma dequeued_ids_oldest:
  assumes pk: "primary_key t" and "r \<in> set t" "object_id r \<in> set (dequeued_ids locked mx clk n t)"
    and "r' \<in> set t" "object_id r' \<notin> set (dequeued_ids locked mx clk n t)"
    and "is_available mx clk r'" "\<not> locked (object_id r')"
  shows "processing_started_at r \<le> processing_started_at r'
         \<and> length (dequeued_ids locked mx clk n t) = n"
proof -
  let ?c = "sort_key processing_started_at
       (filter (\<lambda>r. is_available mx clk r \<and> \<not> locked (object_id r)) t)"
  have inj: "inj_on object_id (set t)" using pk by (simp add: primary_key_def distinct_map)
  obtain q where "q \<in> set (take n ?c)" "object_id q = object_id r"
    using assms(3) by (auto simp: dequeued_ids_def)
  moreover have "set (take n ?c) \<subseteq> set t"
    by (auto dest!: in_set_takeD)
  ultimately have r: "r \<in> set (take n ?c)"
    using inj_onD [OF inj, of q r] assms(2) by auto
  have r': "r' \<in> set ?c" "r' \<notin> set (take n ?c)"
    using assms(4-7) by (auto simp: dequeued_ids_def)
  have "set ?c = set (take n ?c) \<union> set (drop n ?c)"
    by (metis append_take_drop_id set_append)
  with r' have d: "r' \<in> set (drop n ?c)" by blast
  then have "n < length ?c" by (cases "n < length ?c") auto
  then have "length (dequeued_ids locked mx clk n t) = n" by (simp add: dequeued_ids_def)
  with sorted_key_take_drop [OF r d] show ?thesis by blast
qed

text \<open>Deleting.\<close>

lemma delete_where_append:
  "delete_where p (delete_where p acc xs) ys = delete_where p acc (xs @ ys)"
proof -
  let ?h = "\<lambda>is r. object_id r \<in> set is \<and> processed_by r = Some p"
  have hit: "?h (xs @ ys) r \<longleftrightarrow> ?h xs r \<or> ?h ys r" for r
    by auto
  show ?thesis
    unfolding delete_where_def Let_def hit length_filter_or
    by (simp del: de_Morgan_conj)
qed

lemma delete_queued_objects_eq:
  "delete_queued_objects t ids p = delete_where p (t, 0) ids"
  unfolding delete_queued_objects_def
  by (rule fold_chunks [OF OBJECTS_PER_QUERY_pos delete_where_append]) (simp add: delete_where_def)

lemma primary_key_filter: "primary_key t \<Longrightarrow> primary_key (filter P t)"
  by (auto simp: primary_key_def distinct_map intro: inj_on_subset)

lemma view_filter:
  assumes "primary_key t"
  shows "view (filter P t) i = (case view t i of None \<Rightarrow> None
           | Some (p, s) \<Rightarrow> if P \<lparr>object_id = i, processed_by = p, processing_started_at = s\<rparr>
                          then Some (p, s) else None)"
  using assms
proof (induction t)
  case (Cons r t)
  then have "i = object_id r \<Longrightarrow> view t i = None" and pk: "primary_key t"
    by (auto simp: primary_key_def view_None_iff queued_ids_def)
  moreover from this(1) have "i = object_id r \<Longrightarrow> view (filter P t) i = None"
    using Cons.IH pk by simp
  ultimately show ?case using Cons.IH by (cases r) (auto simp: view_def)
qed (simp add: view_def)

lemma delete_view:
  assumes "primary_key t"
  shows "primary_key (fst (delete_queued_objects t ids p))"
    and "view (fst (delete_queued_objects t ids p)) i =
           (if i \<in> set ids \<and> (\<exists>s. view t i = Some (Some p, s)) then None else view t i)"
  using assms
  by (auto simp: delete_queued_objects_eq delete_where_def Let_def primary_key_filter view_filter
      split: option.splits)

section \<open>The contract of the queue\<close>

locale task_queue =
  fixes view :: "'t \<Rightarrow> 'i \<Rightarrow> ('p option \<times> int) option"
    and valid :: "'t \<Rightarrow> bool"
    and enqueue :: "int \<Rightarrow> 't \<Rightarrow> 'i list \<Rightarrow> 't"
    and acquire :: "('i \<Rightarrow> bool) \<Rightarrow> int \<Rightarrow> 't \<Rightarrow> nat \<Rightarrow> 'p \<Rightarrow> int \<Rightarrow> 't \<times> 'i list"
    and delete :: "'t \<Rightarrow> 'i list \<Rightarrow> 'p \<Rightarrow> 't"
  assumes enqueue_valid: "valid t \<Longrightarrow> valid (enqueue clk t is)"
    and enqueue_view: "view (enqueue clk t is) i =
      (case view t i of Some x \<Rightarrow> Some x | None \<Rightarrow> if i \<in> set is then Some (None, clk) else None)"
    and acquire_valid: "valid t \<Longrightarrow> acquire lk clk t n p mx = (t', is) \<Longrightarrow> valid t'"
    and acquire_sets_owner: "valid t \<Longrightarrow> acquire lk clk t n p mx = (t', is) \<Longrightarrow>
      view t' i = (if i \<in> set is then Some (Some p, clk) else view t i)"
    and acquire_available: "valid t \<Longrightarrow> acquire lk clk t n p mx = (t', is) \<Longrightarrow> i \<in> set is \<Longrightarrow>
      \<exists>own s. view t i = Some (own, s) \<and> (own = None \<or> s + mx < clk)"
    and acquire_count: "valid t \<Longrightarrow> acquire lk clk t n p mx = (t', is) \<Longrightarrow> distinct is \<and> length is \<le> n"
    and delete_valid: "valid t \<Longrightarrow> valid (delete t is p)"
    and delete_only_owned: "valid t \<Longrightarrow> view (delete t is p) i =
      (if i \<in> set is \<and> (\<exists>s. view t i = Some (Some p, s)) then None else view t i)"
begin

lemma enqueue_keeps: "view t i = Some x \<Longrightarrow> view (enqueue clk t is) i = Some x"
  by (simp add: enqueue_view)

lemma enqueue_idem: "view (enqueue clk' (enqueue clk t is) is) = view (enqueue clk t is)"
  by (auto simp: enqueue_view fun_eq_iff split: option.splits)

lemma fresh_owner_not_acquired:
  assumes "valid t" and "view t i = Some (Some q, s)" and "clk \<le> s + mx"
    and "acquire lk clk t n p mx = (t', is)"
  shows "i \<notin> set is"
  using acquire_available [OF assms(1,4)] assms(2,3) by fastforce

lemma foreign_delete: "valid t \<Longrightarrow> view t i = Some (Some q, s) \<Longrightarrow> p \<noteq> q \<Longrightarrow> view (delete t is p) i = view t i"
  by (simp add: delete_only_owned)

end

definition acquire_ids ::
    "(string \<Rightarrow> bool) \<Rightarrow> int \<Rightarrow> queue_table \<Rightarrow> nat \<Rightarrow> string \<Rightarrow> int \<Rightarrow> queue_table \<times> string list" where
  "acquire_ids locked clk t n p mx =
     (let (t', rs) = acquire_queued_objects locked clk t n p mx in (t', map object_id rs))"

interpretation wq: task_queue view primary_key "\<lambda>clk t is. fst (queue_objects clk t is)" acquire_ids
  "\<lambda>t is p. fst (delete_queued_objects t is p)"
proof unfold_locales
  fix t t' :: queue_table and lk clk n p mx i and "is" :: "string list"
  assume pk: "primary_key t" and "acquire_ids lk clk t n p mx = (t', is)"
  then obtain rs where a: "acquire_queued_objects lk clk t n p mx = (t', rs)" and rs: "is = map object_id rs"
    by (auto simp: acquire_ids_def Let_def split: prod.splits)
  show "primary_key t'" "view t' i = (if i \<in> set is then Some (Some p, clk) else view t i)"
    "distinct is \<and> length is \<le> n"
    using acquire_view [OF pk a] rs by simp_all
  show "i \<in> set is \<Longrightarrow> \<exists>own s. view t i = Some (own, s) \<and> (own = None \<or> s + mx < clk)"
    using acquire_view(5) [OF pk a] rs by simp
qed (simp_all add: primary_key_queue_objects view_queue_objects delete_view)

section \<open>Properties\<close>

text \<open>
  C31. Queueing is idempotent and never loses work: an object that is already queued keeps its
  entry, with its processor and its start time; every other requested object gets one new,
  unowned entry; no entry is dropped or duplicated; and the returned number is the number of
  objects that were not queued before. The order and the duplicates of the request, and the
  1024-row chunks of the statement, do not matter.
\<close>

theorem queue_objects_keeps_entries:
  assumes "primary_key t"
  shows "primary_key (fst (queue_objects clk t ids))
    \<and> (view (fst (queue_objects clk t ids)) =
         (\<lambda>i. if i \<in> queued_ids t then view t i else if i \<in> set ids then Some (None, clk) else None))
    \<and> snd (queue_objects clk t ids) = card (set ids - queued_ids t)
    \<and> snd (queue_objects clk' (fst (queue_objects clk t ids)) ids) = 0"
proof -
  have v: "view (fst (queue_objects clk t ids)) =
         (\<lambda>i. if i \<in> queued_ids t then view t i else if i \<in> set ids then Some (None, clk) else None)"
    by (auto simp: view_queue_objects fun_eq_iff view_None_iff [symmetric] split: option.splits)
  have "queued_ids (fst (queue_objects clk t ids)) = queued_ids t \<union> set ids"
    unfolding v [THEN arg_cong, of dom, unfolded dom_view] unfolding dom_view [symmetric]
    by (auto simp: dom_def split: if_splits)
  then have "set ids - queued_ids (fst (queue_objects clk t ids)) = {}" by blast
  with v show ?thesis
    using primary_key_queue_objects [OF assms] by (simp add: snd_queue_objects)
qed

theorem queue_objects_keeps_entries_witness:
  "let t = [\<lparr>object_id = ''a'', processed_by = Some ''p'', processing_started_at = 3\<rparr>]
   in view (fst (queue_objects 9 t [''b'', ''a'', ''b''])) ''a'' = Some (Some ''p'', 3)
    \<and> view (fst (queue_objects 9 t [''b'', ''a'', ''b''])) ''b'' = Some (None, 9)
    \<and> snd (queue_objects 9 t [''b'', ''a'', ''b'']) = 1"
proof -
  let ?t = "[\<lparr>object_id = ''a'', processed_by = Some ''p'', processing_started_at = 3\<rparr>]"
  have "primary_key ?t" by (simp add: primary_key_def)
  from queue_objects_keeps_entries [OF this, of 9 "[''b'', ''a'', ''b'']" 10]
  show ?thesis by (simp add: view_def Let_def insert_Diff_if)
qed

text \<open>
  C10. Acquiring hands an object to one processor at a time: each returned object was unowned or
  its owner's start time had expired; it is now owned by the caller with the current time; at
  most \<open>count\<close> objects are returned, no other entry changes, and until \<open>max_outdated\<close> has passed
  no later acquisition, by any processor, returns it again. The oldest start times are served
  first, and an available unlocked object is left over only when \<open>count\<close> is used up.
\<close>

theorem acquire_exclusive_oldest_first:
  assumes "primary_key t" and "acquire_queued_objects locked clk t count p max_outdated = (t', rs)"
    and "acquire_queued_objects locked' clk' t' count' q max_outdated' = (t'', rs')"
    and "clk' \<le> clk + max_outdated'"
  shows "(\<forall>r \<in> set rs. \<exists>own s. view t (object_id r) = Some (own, s) \<and> (own = None \<or> s + max_outdated < clk))
    \<and> view t' = (\<lambda>i. if i \<in> object_id ` set rs then Some (Some p, clk) else view t i)
    \<and> length rs \<le> count
    \<and> object_id ` set rs \<inter> object_id ` set rs' = {}
    \<and> (\<forall>r \<in> set t. \<forall>r' \<in> set t. object_id r \<in> object_id ` set rs \<longrightarrow>
         is_available max_outdated clk r' \<and> \<not> locked (object_id r') \<and> object_id r' \<notin> object_id ` set rs \<longrightarrow>
         processing_started_at r \<le> processing_started_at r' \<and> length rs = count)"
proof -
  note a = acquire_view [OF assms(1,2)]
  have ids: "object_id ` set rs = set (dequeued_ids locked max_outdated clk count t)"
    by (rule acquire_returns_dequeued [OF assms(1,2)])
  have "length rs = card (set (dequeued_ids locked max_outdated clk count t))"
    using distinct_card [OF a(3)] ids by simp
  then have len: "length rs = length (dequeued_ids locked max_outdated clk count t)"
    using distinct_card [OF dequeued_ids_props(1) [OF assms(1)]] by simp
  have "object_id ` set rs \<inter> object_id ` set rs' = {}"
  proof (rule equals0I)
    fix i assume i: "i \<in> object_id ` set rs \<inter> object_id ` set rs'"
    then have "view t' i = Some (Some p, clk)" using a(2) [of i] by simp
    with i acquire_view(5) [OF a(1) assms(3), of i] assms(4) show False by auto
  qed
  moreover have "\<forall>r \<in> set rs. \<exists>own s. view t (object_id r) = Some (own, s)
      \<and> (own = None \<or> s + max_outdated < clk)"
    using a(5) by blast
  moreover have "view t' = (\<lambda>i. if i \<in> object_id ` set rs then Some (Some p, clk) else view t i)"
    using a(2) by blast
  moreover have "\<forall>r \<in> set t. \<forall>r' \<in> set t. object_id r \<in> object_id ` set rs \<longrightarrow>
         is_available max_outdated clk r' \<and> \<not> locked (object_id r') \<and> object_id r' \<notin> object_id ` set rs \<longrightarrow>
         processing_started_at r \<le> processing_started_at r' \<and> length rs = count"
    unfolding ids len using dequeued_ids_oldest [OF assms(1)] by auto
  ultimately show ?thesis using a(4) by blast
qed

theorem acquire_exclusive_oldest_first_witness:
  "let t = [\<lparr>object_id = ''a'', processed_by = Some ''q'', processing_started_at = 90\<rparr>,
            \<lparr>object_id = ''b'', processed_by = None, processing_started_at = 80\<rparr>,
            \<lparr>object_id = ''c'', processed_by = Some ''q'', processing_started_at = 10\<rparr>];
       a = acquire_queued_objects (\<lambda>_. False) 100 t 1 ''p'' 50;
       b = acquire_queued_objects (\<lambda>_. False) 101 (fst a) 5 ''r'' 50
   in map object_id (snd a) = [''c''] \<and> map object_id (snd b) = [''b'']
      \<and> object_id ` set (snd a) \<inter> object_id ` set (snd b) = {}"
proof -
  let ?t = "[\<lparr>object_id = ''a'', processed_by = Some ''q'', processing_started_at = 90\<rparr>,
            \<lparr>object_id = ''b'', processed_by = None, processing_started_at = 80\<rparr>,
            \<lparr>object_id = ''c'', processed_by = Some ''q'', processing_started_at = 10\<rparr>]"
  let ?a = "acquire_queued_objects (\<lambda>_. False) 100 ?t 1 ''p'' 50"
  let ?b = "acquire_queued_objects (\<lambda>_. False) 101 (fst ?a) 5 ''r'' 50"
  have "primary_key ?t" by (simp add: primary_key_def)
  from acquire_exclusive_oldest_first [OF this, of "\<lambda>_. False" 100 1 "''p''" 50 "fst ?a" "snd ?a"
      "\<lambda>_. False" 101 5 "''r''" 50 "fst ?b" "snd ?b"]
  have "object_id ` set (snd ?a) \<inter> object_id ` set (snd ?b) = {}" by simp
  moreover have "map object_id (snd ?a) = [''c''] \<and> map object_id (snd ?b) = [''b'']"
    by (simp add: acquire_queued_objects_def dequeued_ids_def is_available_def Let_def)
  ultimately show ?thesis unfolding Let_def by blast
qed

end
