(* ===== verification/State_Handler.thy ===== *)
theory State_Handler
  imports Config_Version
begin

text \<open>
  The interface between the state controller framework and the state handlers of the object
  types (\<open>src/crates/state-controller/src/state_handler.rs\<close>, \<open>db_write_batch.rs\<close>, \<open>metrics.rs\<close>
  and \<open>src/crates/api-model/src/controller_outcome.rs\<close>): outcomes, errors, the outcome record
  kept in the database, deferred writes and the per-state object counts.

  A database transaction is the database content it would commit, of type \<open>'t\<close>; a deferred
  write is a fallible function on it. Error payloads from other libraries are their text.
\<close>

section \<open>Outcomes and errors\<close>

type_synonym source_ref = "string \<times> nat"

datatype ('s, 't) state_handler_outcome =
    Wait string source_ref "'t option"
  | Transition 's source_ref "'t option"
  | DoNothing source_ref "'t option"
  | Deleted source_ref "'t option"

record external_service_error =
  ese_service :: string
  ese_operation :: string
  ese_details :: string
  ese_metric_label :: string

datatype state_handler_error =
    TransactionError string
  | GenericError string
  | MissingData string string
  | DBError string
  | PoolReleaseError string
  | InvalidHostState string string
  | ExternalServiceError external_service_error
  | Timeout string string
  | FirmwareUpdateError string
  | ManualInterventionRequired string
  | InvalidState string
  | HealthProbeAlert
  | TimeInStateAboveSla string
  | ResourceCleanupError string string
  | SpdmError string

fun take_transaction ::
    "('s, 't) state_handler_outcome \<Rightarrow> 't option \<times> ('s, 't) state_handler_outcome" where
  "take_transaction (Wait r l t) = (t, Wait r l None)"
| "take_transaction (Transition s l t) = (t, Transition s l None)"
| "take_transaction (DoNothing l t) = (t, DoNothing l None)"
| "take_transaction (Deleted l t) = (t, Deleted l None)"

text \<open>\<open>with_txn_opt\<close>: the assertion that no transaction is attached yet is a panic (\<open>None\<close>); the
  workspace profile keeps debug assertions in release builds.\<close>

definition with_txn_opt ::
    "('s, 't) state_handler_outcome \<Rightarrow> 't option \<Rightarrow> ('s, 't) state_handler_outcome option" where
  "with_txn_opt out txn =
     (if fst (take_transaction out) \<noteq> None then None
      else Some (case out of
          Wait r l _ \<Rightarrow> Wait r l txn
        | Transition s l _ \<Rightarrow> Transition s l txn
        | DoNothing l _ \<Rightarrow> DoNothing l txn
        | Deleted l _ \<Rightarrow> Deleted l txn))"

definition with_txn ::
    "('s, 't) state_handler_outcome \<Rightarrow> 't \<Rightarrow> ('s, 't) state_handler_outcome option" where
  "with_txn out t = with_txn_opt out (Some t)"

definition do_nothing :: "source_ref \<Rightarrow> ('s, 't) state_handler_outcome" where
  "do_nothing l = DoNothing l None"

definition transition :: "source_ref \<Rightarrow> 's \<Rightarrow> ('s, 't) state_handler_outcome" where
  "transition l s = Transition s l None"

definition wait :: "source_ref \<Rightarrow> string \<Rightarrow> ('s, 't) state_handler_outcome" where
  "wait l r = Wait r l None"

definition deleted :: "source_ref \<Rightarrow> ('s, 't) state_handler_outcome" where
  "deleted l = Deleted l None"

text \<open>\<open>in_transaction\<close>: run \<open>f\<close> in the outcome's transaction, starting one from the pool if there
  is none. The outer sum is the pool's result, the inner one that of \<open>f\<close>.\<close>

definition in_transaction ::
    "('s, 't) state_handler_outcome \<Rightarrow> (string + 't) \<Rightarrow> ('t \<Rightarrow> 'e + 't)
       \<Rightarrow> string + ('e + ('s, 't) state_handler_outcome)" where
  "in_transaction out pool_begin f =
     bind_res (case fst (take_transaction out) of Some t \<Rightarrow> Inr t | None \<Rightarrow> pool_begin) (\<lambda>t.
       Inr (bind_res (f t) (\<lambda>t'. Inr (case out of
           Wait r l _ \<Rightarrow> Wait r l (Some t')
         | Transition s l _ \<Rightarrow> Transition s l (Some t')
         | DoNothing l _ \<Rightarrow> DoNothing l (Some t')
         | Deleted l _ \<Rightarrow> Deleted l (Some t')))))"

fun metric_label :: "state_handler_error \<Rightarrow> string" where
  "metric_label (TransactionError _) = ''transaction_error''"
| "metric_label (GenericError _) = ''generic_error''"
| "metric_label (FirmwareUpdateError _) = ''firware_update_error''"
| "metric_label (MissingData _ _) = ''missing_data''"
| "metric_label (DBError _) = ''db_error''"
| "metric_label (Timeout _ _) = ''timeout''"
| "metric_label (PoolReleaseError _) = ''pool_release_error''"
| "metric_label (InvalidHostState _ _) = ''invalid_host_state''"
| "metric_label (InvalidState _) = ''invalid_state''"
| "metric_label (ExternalServiceError e) = ese_metric_label e"
| "metric_label (ManualInterventionRequired _) = ''manual_intervention_required''"
| "metric_label HealthProbeAlert = ''health_probe_alert''"
| "metric_label (TimeInStateAboveSla _) = ''time_in_state_above_sla''"
| "metric_label (ResourceCleanupError resource _) =
     (if resource = ''VpcLoopbackIp'' then ''vpcloopback_release_failed''
      else if resource = ''network_segment'' then ''network_segment_cleanup_failed''
      else ''resource_cleanup_failed'')"
| "metric_label (SpdmError _) = ''spdm_attestation_error''"

definition show_external_service_error :: "external_service_error \<Rightarrow> string" where
  "show_external_service_error e =
     (if ese_operation e = [] then
        ''Failed '' @ ese_service e @ '' operation. Details: '' @ ese_details e @ ''.''
      else ''Failed '' @ ese_service e @ '' operation: '' @ ese_operation e @ ''. Details: ''
             @ ese_details e @ ''.'')"

fun error_to_string :: "state_handler_error \<Rightarrow> string" where
  "error_to_string (TransactionError e) = ''Unable to perform database transaction: '' @ e"
| "error_to_string (GenericError e) = ''Failed to advance state: '' @ e"
| "error_to_string (MissingData i missing) =
     ''State for object '' @ i @ '' can not be advanced. Missing data: '' @ missing"
| "error_to_string (DBError e) = e"
| "error_to_string (PoolReleaseError e) = ''Error releasing from resource pool: '' @ e"
| "error_to_string (InvalidHostState dpu st) = ''Invalid host state '' @ st @ '' for DPU '' @ dpu @ ''.''"
| "error_to_string (ExternalServiceError e) = show_external_service_error e"
| "error_to_string (Timeout i st) =
     ''The state handler for object '' @ i @ '' in state '' @ [CHR 0x22] @ st @ [CHR 0x22] @ '' timed out''"
| "error_to_string (FirmwareUpdateError e) = ''Failed to update firmware: '' @ e"
| "error_to_string (ManualInterventionRequired e) =
     ''Manual intervention required. Cannot make progress. '' @ e"
| "error_to_string (InvalidState e) = ''Invalid state: '' @ e"
| "error_to_string HealthProbeAlert = ''State will not be advanced due to health probe alert''"
| "error_to_string (TimeInStateAboveSla h) =
     ''The object is in the state for longer than defined by the SLA. Handler outcome: '' @ h"
| "error_to_string (ResourceCleanupError resource e) =
     ''Resource '' @ resource @ '' cleanup error: '' @ e"
| "error_to_string (SpdmError e) = ''Spdm error: '' @ e"

section \<open>The outcome record of the database\<close>

datatype persistent_outcome =
    PWait string "source_ref option"
  | PError string "source_ref option"
  | PTransition "source_ref option"
  | PDoNothing "source_ref option"
  | PDoNothingWithDetails

text \<open>\<open>from_result\<close>: the \<open>Deleted\<close> outcome is \<open>unreachable!()\<close>, a panic (\<open>None\<close>).\<close>

fun from_result :: "state_handler_error + ('s, 't) state_handler_outcome \<Rightarrow> persistent_outcome option" where
  "from_result (Inr (Wait r l t)) = Some (PWait r (Some l))"
| "from_result (Inr (Transition s l t)) = Some (PTransition (Some l))"
| "from_result (Inr (DoNothing l t)) = Some (PDoNothing (Some l))"
| "from_result (Inr (Deleted l t)) = None"
| "from_result (Inl e) = Some (PError (error_to_string e) None)"

section \<open>Deferred writes\<close>

type_synonym 't write_op = "'t \<Rightarrow> state_handler_error + 't"

text \<open>\<open>DbWriteBatch::push\<close> appends, \<open>apply_all\<close> stops at the first error. The transaction is
  returned in both cases: the caller rolls it back after an error.\<close>

definition push_write :: "'t write_op list \<Rightarrow> 't write_op \<Rightarrow> 't write_op list" where
  "push_write ws w = ws @ [w]"

fun apply_all :: "'t write_op list \<Rightarrow> 't \<Rightarrow> state_handler_error option \<times> 't" where
  "apply_all [] t = (None, t)"
| "apply_all (w # ws) t = (case w t of Inl e \<Rightarrow> (Some e, t) | Inr t' \<Rightarrow> apply_all ws t')"

lemma apply_all_append:
  "apply_all (ws @ vs) t = (case apply_all ws t of (Some e, t') \<Rightarrow> (Some e, t') | (None, t') \<Rightarrow> apply_all vs t')"
  by (induction ws t rule: apply_all.induct) (auto split: sum.splits)

section \<open>Counting objects per state\<close>

record 's object_metrics =
  initial_state :: "'s option"
  next_state :: "'s option"
  time_in_state_above_sla :: bool
  om_error :: "state_handler_error option"

definition default_metrics :: "'s object_metrics" where
  "default_metrics = \<lparr>initial_state = None, next_state = None, time_in_state_above_sla = False, om_error = None\<rparr>"

record state_metrics =
  num_objects :: nat
  num_objects_above_sla :: nat
  handling_errors_per_type :: "string \<Rightarrow> nat"

definition default_state_metrics :: state_metrics where
  "default_state_metrics = \<lparr>num_objects = 0, num_objects_above_sla = 0, handling_errors_per_type = (\<lambda>_. 0)\<rparr>"

type_synonym full_state = "string \<times> string"

text \<open>The map of the iteration metrics; \<open>entry(k).or_default()\<close> followed by an update.\<close>

definition entry_modify ::
    "(full_state \<rightharpoonup> state_metrics) \<Rightarrow> full_state \<Rightarrow> (state_metrics \<Rightarrow> state_metrics) \<Rightarrow> (full_state \<rightharpoonup> state_metrics)" where
  "entry_modify m k f = m(k \<mapsto> f (case m k of None \<Rightarrow> default_state_metrics | Some v \<Rightarrow> v))"

definition count_error :: "state_handler_error option \<Rightarrow> state_metrics \<Rightarrow> state_metrics" where
  "count_error err sm = (case err of None \<Rightarrow> sm
     | Some e \<Rightarrow> sm\<lparr>handling_errors_per_type :=
          (handling_errors_per_type sm)(metric_label e := handling_errors_per_type sm (metric_label e) + 1)\<rparr>)"

definition merge_object_handling_metrics ::
    "('s \<Rightarrow> full_state) \<Rightarrow> (full_state \<rightharpoonup> state_metrics) \<Rightarrow> 's object_metrics \<Rightarrow> (full_state \<rightharpoonup> state_metrics)" where
  "merge_object_handling_metrics metric_state_names m om =
     (let k = (case initial_state om of None \<Rightarrow> (''unknown'', '''') | Some s \<Rightarrow> metric_state_names s);
          m1 = entry_modify m k (\<lambda>sm.
                 let sm = count_error (om_error om) sm
                 in if next_state om = None
                    then sm\<lparr>num_objects := num_objects sm + 1,
                            num_objects_above_sla := num_objects_above_sla sm
                              + (if time_in_state_above_sla om then 1 else 0)\<rparr>
                    else sm)
      in case next_state om of
           None \<Rightarrow> m1
         | Some s \<Rightarrow> entry_modify m1 (metric_state_names s) (\<lambda>sm. sm\<lparr>num_objects := num_objects sm + 1\<rparr>))"

definition object_state_name :: "('s \<Rightarrow> full_state) \<Rightarrow> 's object_metrics \<Rightarrow> full_state" where
  "object_state_name names om =
     (case next_state om of Some s \<Rightarrow> names s
      | None \<Rightarrow> (case initial_state om of None \<Rightarrow> (''unknown'', '''') | Some s \<Rightarrow> names s))"

definition objects_in :: "(full_state \<rightharpoonup> state_metrics) \<Rightarrow> full_state \<Rightarrow> nat" where
  "objects_in m k = (case m k of None \<Rightarrow> 0 | Some sm \<Rightarrow> num_objects sm)"

lemma objects_in_merge:
  "objects_in (merge_object_handling_metrics names m om) k
     = objects_in m k + (if k = object_state_name names om then 1 else 0)"
  by (auto simp: merge_object_handling_metrics_def object_state_name_def objects_in_def
      entry_modify_def count_error_def default_state_metrics_def Let_def split: option.splits)

text \<open>
  C32. The per-state object counts of a reporting interval are a partition of the handled
  objects: merging the metrics of any list of objects counts every object exactly once, under
  the state it reached, or under the state it stayed in when no transition was committed.
\<close>

theorem merged_counts_partition_objects:
  "objects_in (foldl (merge_object_handling_metrics names) Map.empty oms) k
     = length (filter (\<lambda>om. object_state_name names om = k) oms)"
proof (induction oms rule: rev_induct)
  case Nil
  then show ?case by (simp add: objects_in_def)
next
  case (snoc om oms)
  then show ?case by (auto simp: objects_in_merge)
qed

end
