(* ===== verification/State_History.thy ===== *)
theory State_History
  imports Config_Version
begin

text \<open>
  The recorded lifecycle states of an object (\<open>src/crates/api-db/src/state_history.rs\<close>). One table per
  object type holds a row per entered state, in the order of the serial column \<open>id\<close>. The insert
  trigger of every table (\<open>*_state_history_keep_limit\<close> in \<open>src/crates/api-db/migrations\<close>) deletes all
  but the newest 250 rows of the object of the new row.
\<close>

section \<open>Definitions\<close>

datatype state_history_table_id =
    MachineHistory | NetworkSegmentHistory | DpaInterfaceHistory | IbPartitionHistory
  | PowerShelfHistory | RackHistory | SwitchHistory

fun sql_table :: "state_history_table_id \<Rightarrow> string" where
  "sql_table MachineHistory = ''machine_state_history''"
| "sql_table NetworkSegmentHistory = ''network_segment_state_history''"
| "sql_table DpaInterfaceHistory = ''dpa_interface_state_history''"
| "sql_table IbPartitionHistory = ''ib_partition_state_history''"
| "sql_table PowerShelfHistory = ''power_shelf_state_history''"
| "sql_table RackHistory = ''rack_state_history''"
| "sql_table SwitchHistory = ''switch_state_history''"

fun object_id_column :: "state_history_table_id \<Rightarrow> string" where
  "object_id_column MachineHistory = ''machine_id''"
| "object_id_column NetworkSegmentHistory = ''segment_id''"
| "object_id_column DpaInterfaceHistory = ''interface_id''"
| "object_id_column IbPartitionHistory = ''partition_id''"
| "object_id_column PowerShelfHistory = ''power_shelf_id''"
| "object_id_column RackHistory = ''rack_id''"
| "object_id_column SwitchHistory = ''switch_id''"

record ('o, 'cs, 'd) history_row =
  hr_object :: 'o
  hr_state :: 'cs
  hr_version :: "'d config_version"
  hr_time :: 'd

type_synonym ('o, 'cs, 'd) history_table = "('o, 'cs, 'd) history_row list"

definition KEEP_LIMIT :: nat where
  "KEEP_LIMIT = 250"

fun drop_oldest :: "nat \<Rightarrow> 'o \<Rightarrow> ('o, 'cs, 'd) history_table \<Rightarrow> ('o, 'cs, 'd) history_table" where
  "drop_oldest 0 oid t = t"
| "drop_oldest (Suc n) oid [] = []"
| "drop_oldest (Suc n) oid (r # t) =
     (if hr_object r = oid then drop_oldest n oid t else r # drop_oldest (Suc n) oid t)"

definition for_object :: "'o \<Rightarrow> ('o, 'cs, 'd) history_table \<Rightarrow> ('o, 'cs, 'd) history_table" where
  "for_object oid t = filter (\<lambda>r. hr_object r = oid) t"

text \<open>\<open>KEEP_LIMIT\<close> newest rows of the object remain after the trigger.\<close>

definition keep_limit_trigger :: "'o \<Rightarrow> ('o, 'cs, 'd) history_table \<Rightarrow> ('o, 'cs, 'd) history_table" where
  "keep_limit_trigger oid t = drop_oldest (length (for_object oid t) - KEEP_LIMIT) oid t"

definition persist_history ::
    "('o, 'cs, 'd) history_table \<Rightarrow> 'o \<Rightarrow> 'cs \<Rightarrow> 'd config_version \<Rightarrow> 'd \<Rightarrow> ('o, 'cs, 'd) history_table" where
  "persist_history t oid state version clk =
     keep_limit_trigger oid (t @ [\<lparr>hr_object = oid, hr_state = state, hr_version = version, hr_time = clk\<rparr>])"

text \<open>The map of the rows of all given objects; an object without rows has no entry.\<close>

definition find_by_object_ids ::
    "'o list \<Rightarrow> ('o, 'cs, 'd) history_table \<Rightarrow> ('o \<rightharpoonup> ('o, 'cs, 'd) history_table)" where
  "find_by_object_ids ids t =
     (if ids = [] then Map.empty
      else fold (\<lambda>r m. m(hr_object r \<mapsto> (case m (hr_object r) of None \<Rightarrow> [] | Some rs \<Rightarrow> rs) @ [r]))
             (filter (\<lambda>r. hr_object r \<in> set ids) t) Map.empty)"

definition update_object_ids ::
    "('o, 'cs, 'd) history_table \<Rightarrow> 'o \<Rightarrow> 'o \<Rightarrow> ('o, 'cs, 'd) history_table" where
  "update_object_ids t old new = map (\<lambda>r. if hr_object r = old then r\<lparr>hr_object := new\<rparr> else r) t"

definition delete_by_object_id :: "('o, 'cs, 'd) history_table \<Rightarrow> 'o \<Rightarrow> ('o, 'cs, 'd) history_table \<times> nat" where
  "delete_by_object_id t oid = (filter (\<lambda>r. hr_object r \<noteq> oid) t, length (for_object oid t))"

section \<open>Lemmas\<close>

text \<open>The newest rows of a list.\<close>

definition keep_limit :: "'a list \<Rightarrow> 'a list" where
  "keep_limit rows = drop (length rows - KEEP_LIMIT) rows"

lemma length_keep_limit: "length (keep_limit rows) = min KEEP_LIMIT (length rows)"
  by (simp add: keep_limit_def)

lemma keep_limit_idem: "keep_limit (keep_limit rows @ [r]) = keep_limit (rows @ [r])"
proof -
  have "n - (n - 250 + 249) + (n - 250) = n - 249" for n :: nat by arith
  then show ?thesis by (simp add: keep_limit_def KEEP_LIMIT_def)
qed

lemma row_eta:
  "\<lparr>hr_object = hr_object r, hr_state = hr_state r, hr_version = hr_version r, hr_time = hr_time r\<rparr> = r"
  by simp

lemma for_object_simps [simp]: "for_object oid [] = []" "for_object oid [r] = (if hr_object r = oid then [r] else [])"
  by (simp_all add: for_object_def)

lemma for_object_append [simp]: "for_object oid (t @ u) = for_object oid t @ for_object oid u"
  by (simp add: for_object_def)

lemma for_object_drop_oldest:
  "for_object o' (drop_oldest n oid t) = (if o' = oid then drop n (for_object oid t) else for_object o' t)"
  by (induction n oid t rule: drop_oldest.induct) (auto simp: for_object_def)

lemma for_object_persist:
  "for_object o' (persist_history t oid state version clk) =
     (if o' = oid then keep_limit (for_object oid t
        @ [\<lparr>hr_object = oid, hr_state = state, hr_version = version, hr_time = clk\<rparr>])
      else for_object o' t)"
  by (simp add: persist_history_def keep_limit_trigger_def for_object_drop_oldest keep_limit_def)

lemma fold_group:
  "fold (\<lambda>r m. m(hr_object r \<mapsto> (case m (hr_object r) of None \<Rightarrow> [] | Some rs \<Rightarrow> rs) @ [r])) t m oid =
     (if for_object oid t = [] then m oid
      else Some ((case m oid of None \<Rightarrow> [] | Some rs \<Rightarrow> rs) @ for_object oid t))"
  by (induction t arbitrary: m) (auto simp: for_object_def)

section \<open>Properties\<close>

text \<open>C12. However the insertions of many objects interleave, the history of an object is the last 250 of
  the states recorded for it, in order; and reading the histories of several objects at once returns
  for each of them exactly its own rows.\<close>

theorem history_keeps_newest:
  "for_object oid (foldl (\<lambda>t r. persist_history t (hr_object r) (hr_state r) (hr_version r) (hr_time r)) [] rows)
     = keep_limit (for_object oid (rows :: ('o, 'cs, 'd) history_table))
   \<and> length (for_object oid (foldl (\<lambda>t r. persist_history t (hr_object r) (hr_state r) (hr_version r) (hr_time r)) [] rows)) \<le> 250
   \<and> find_by_object_ids ids t oid =
       (if oid \<in> set ids \<and> for_object oid t \<noteq> [] then Some (for_object oid t) else None)"
proof -
  have newest: "for_object oid (foldl (\<lambda>t r. persist_history t (hr_object r) (hr_state r) (hr_version r) (hr_time r)) [] rows)
      = keep_limit (for_object oid rows)"
  proof (induction rows rule: rev_induct)
    case (snoc r rows)
    then show ?case by (auto simp: for_object_persist keep_limit_idem row_eta)
  qed (simp add: keep_limit_def)
  have "for_object oid (filter (\<lambda>r. hr_object r \<in> set ids) t) = (if oid \<in> set ids then for_object oid t else [])"
    by (auto simp: for_object_def filter_empty_conv intro!: filter_cong)
  then have "find_by_object_ids ids t oid =
       (if oid \<in> set ids \<and> for_object oid t \<noteq> [] then Some (for_object oid t) else None)"
    by (auto simp: find_by_object_ids_def fold_group)
  with newest show ?thesis by (simp add: length_keep_limit KEEP_LIMIT_def)
qed

end
