(* ===== verification/Process_Object.thy ===== *)
theory Process_Object
  imports State_Handler State_History
begin

text \<open>
  Handling one object (\<open>process_object\<close> in
  \<open>src/crates/state-controller/src/controller/processor.rs\<close> and the trait \<open>StateControllerIO\<close> of
  \<open>io.rs\<close>): load the object and its versioned lifecycle state, run the handler, apply its
  deferred writes, persist a transition with optimistic locking, record the outcome and commit.

  The database content is of type \<open>'db\<close>. The record \<open>controller_io\<close> holds the operations of the
  trait, which every object type implements with its own tables. The handler is a function of
  the database content at its start; it returns the content at its end, which differs by what
  other actors and the handler itself committed meanwhile, its result, and the deferred
  writes. The record \<open>txn_env\<close> holds the outcome of every transaction begin and commit, and
  where the time limit of the whole function struck. A failed or interrupted commit may have
  been applied by the server or not.
\<close>

section \<open>Definitions\<close>

record ('db, 'o, 's, 'cs, 'd) controller_io =
  load_object_state :: "'db \<Rightarrow> 'o \<Rightarrow> string + 's option"
  load_controller_state :: "'db \<Rightarrow> 'o \<Rightarrow> 's \<Rightarrow> string + ('cs, 'd) versioned"
  persist_controller_state ::
    "'db \<Rightarrow> 'o \<Rightarrow> 'd config_version \<Rightarrow> 'd config_version \<Rightarrow> 'cs \<Rightarrow> string + bool \<times> 'db"
  persist_state_history :: "'db \<Rightarrow> 'o \<Rightarrow> 'd config_version \<Rightarrow> 'cs \<Rightarrow> string + 'db"
  persist_outcome :: "'db \<Rightarrow> 'o \<Rightarrow> persistent_outcome \<Rightarrow> string + 'db"
  state_above_sla :: "('cs, 'd) versioned \<Rightarrow> 's \<Rightarrow> bool"

type_synonym ('db, 'o, 's, 'cs) handler =
  "'o \<Rightarrow> 's \<Rightarrow> 'cs \<Rightarrow> 'db \<Rightarrow>
     'db \<times> (state_handler_error + ('cs, 'db) state_handler_outcome) \<times> 'db write_op list"

datatype commit_result = Committed | CommitFailed string bool

datatype time_limit = NoTimeout | TimeoutLoading | TimeoutHandling | TimeoutCommitting

record 'd txn_env =
  begin_load :: "string option"
  commit_load :: "string option"
  begin_persist :: "string option"
  commit_persist :: commit_result
  begin_outcome :: "string option"
  commit_outcome :: commit_result
  increment_time :: 'd
  time_limit :: time_limit

definition begin_txn :: "string option \<Rightarrow> 'db \<Rightarrow> state_handler_error + 'db" where
  "begin_txn failure db = (case failure of None \<Rightarrow> Inr db | Some e \<Rightarrow> Inl (TransactionError e))"

text \<open>The content after a commit of \<open>t\<close> on \<open>db\<close>, and the result of the call.\<close>

fun commit_txn :: "commit_result \<Rightarrow> 'db \<Rightarrow> 'db \<Rightarrow> 'db \<times> (state_handler_error + unit)" where
  "commit_txn Committed db t = (t, Inr ())"
| "commit_txn (CommitFailed e applied) db t = (if applied then t else db, Inl (TransactionError e))"

text \<open>Which transaction persists the outcome: the handler's own, or a fresh one.\<close>

definition select_txn ::
    "'d txn_env \<Rightarrow> 'db \<Rightarrow> state_handler_error + ('cs, 'db) state_handler_outcome \<Rightarrow> 'db write_op list
       \<Rightarrow> state_handler_error + ((state_handler_error + ('cs, 'db) state_handler_outcome) \<times> 'db)" where
  "select_txn env db1 handler_output pending =
     (case handler_output of
        Inr outcome \<Rightarrow>
          bind_res (case fst (take_transaction outcome) of
                      Some t \<Rightarrow> Inr t | None \<Rightarrow> begin_txn (begin_persist env) db1) (\<lambda>t.
            case apply_all pending t of
              (Some e, t') \<Rightarrow> Inr (Inl e, t')
            | (None, t') \<Rightarrow> Inr (Inr (snd (take_transaction outcome)), t'))
      | Inl e \<Rightarrow> bind_res (begin_txn (begin_persist env) db1) (\<lambda>t. Inr (Inl e, t)))"

text \<open>A transition writes the next state under the incremented version; when the stored version is
  not the loaded one the write is skipped, and so is the history entry.\<close>

definition persist_transition ::
    "('db, 'o, 's, 'cs, 'd) controller_io \<Rightarrow> 'd txn_env \<Rightarrow> 'o \<Rightarrow> ('cs, 'd) versioned
       \<Rightarrow> state_handler_error + ('cs, 'db) state_handler_outcome \<Rightarrow> 'db
       \<Rightarrow> state_handler_error + ('cs option \<times> 'db)" where
  "persist_transition io env oid cs handler_outcome t =
     (case handler_outcome of
        Inr (Transition next _ _) \<Rightarrow>
          (let new_version = increment (ver_version cs) (increment_time env) in
           bind_res (map_err DBError (persist_controller_state io t oid (ver_version cs) new_version next))
             (\<lambda>(persisted, t').
                if persisted then
                  bind_res (map_err DBError (persist_state_history io t' oid new_version next))
                    (\<lambda>t''. Inr (Some next, t''))
                else Inr (Some next, t')))
      | _ \<Rightarrow> Inr (None, t))"

definition apply_sla ::
    "bool \<Rightarrow> state_handler_error + ('cs, 'db) state_handler_outcome
       \<Rightarrow> state_handler_error + ('cs, 'db) state_handler_outcome" where
  "apply_sla above_sla handler_outcome =
     (case handler_outcome of
        Inr (Wait reason l t) \<Rightarrow>
          if above_sla then Inl (TimeInStateAboveSla (''Wait('' @ [CHR 0x22] @ reason @ [CHR 0x22] @ '')''))
          else handler_outcome
      | Inr (DoNothing l t) \<Rightarrow>
          if above_sla then Inl (TimeInStateAboveSla ''DoNothing'') else handler_outcome
      | _ \<Rightarrow> handler_outcome)"

text \<open>Record the outcome and commit. \<open>t\<close> is the working transaction and \<open>db1\<close> the committed
  content; after a handler error the transaction is rolled back and only the outcome is stored.\<close>

definition record_outcome ::
    "('db, 'o, 's, 'cs, 'd) controller_io \<Rightarrow> 'o \<Rightarrow> state_handler_error + ('cs, 'db) state_handler_outcome
       \<Rightarrow> 'db \<Rightarrow> state_handler_error + 'db" where
  "record_outcome io oid handler_outcome t =
     (case from_result handler_outcome of
        None \<Rightarrow> Inr t
      | Some po \<Rightarrow> map_err DBError (persist_outcome io t oid po))"

definition store_outcome ::
    "('db, 'o, 's, 'cs, 'd) controller_io \<Rightarrow> 'd txn_env \<Rightarrow> 'o \<Rightarrow> 'db \<Rightarrow> bool
       \<Rightarrow> state_handler_error + ('cs, 'db) state_handler_outcome \<Rightarrow> 'db
       \<Rightarrow> 'db \<times> (state_handler_error + unit)" where
  "store_outcome io env oid db1 is_success handler_outcome t =
     (if is_success then
        case record_outcome io oid handler_outcome t of
          Inl e \<Rightarrow> (db1, Inl e)
        | Inr t' \<Rightarrow> commit_txn (commit_persist env) db1 t'
      else
        case bind_res (begin_txn (begin_outcome env) db1) (record_outcome io oid handler_outcome) of
          Inl e \<Rightarrow> (db1, Inl e)
        | Inr t' \<Rightarrow> commit_txn (commit_outcome env) db1 t')"

text \<open>The part after the handler returned, in the content \<open>db1\<close>. The last component is the next
  state for the metrics, set only when everything before succeeded.\<close>

definition finish_object ::
    "('db, 'o, 's, 'cs, 'd) controller_io \<Rightarrow> 'd txn_env \<Rightarrow> 'o \<Rightarrow> ('cs, 'd) versioned \<Rightarrow> bool \<Rightarrow> 'db
       \<Rightarrow> state_handler_error + ('cs, 'db) state_handler_outcome \<Rightarrow> 'db write_op list
       \<Rightarrow> 'db \<times> (state_handler_error + ('cs, 'db) state_handler_outcome) \<times> 'cs option" where
  "finish_object io env oid cs above_sla db1 handler_output pending =
     (case select_txn env db1 handler_output pending of
        Inl e \<Rightarrow> (db1, Inl e, None)
      | Inr (handler_outcome, t) \<Rightarrow>
          (case persist_transition io env oid cs handler_outcome t of
             Inl e \<Rightarrow> (db1, Inl e, None)
           | Inr (next, t') \<Rightarrow>
               (let is_success = (\<not> isl handler_outcome);
                    handler_outcome' = apply_sla above_sla handler_outcome
                in case store_outcome io env oid db1 is_success handler_outcome' t' of
                     (db2, Inl e) \<Rightarrow> (db2, Inl e, None)
                   | (db2, Inr ()) \<Rightarrow> (db2, handler_outcome', next))))"

definition process_object ::
    "('db, 'o, 's, 'cs, 'd) controller_io \<Rightarrow> ('db, 'o, 's, 'cs) handler \<Rightarrow> ('o \<Rightarrow> string) \<Rightarrow> ('cs \<Rightarrow> string)
       \<Rightarrow> 'd txn_env \<Rightarrow> 'db \<Rightarrow> 'o \<Rightarrow> 'db \<times> 'cs object_metrics" where
  "process_object io handler show_id show_state env db oid =
     (let loading_timeout = (db, default_metrics\<lparr>om_error := Some (Timeout (show_id oid) '''')\<rparr>);
          failed = (\<lambda>e. (db, default_metrics\<lparr>om_error := Some e\<rparr>))
      in
      if time_limit env = TimeoutLoading then loading_timeout
      else case bind_res (begin_txn (begin_load env) db) (\<lambda>t.
              bind_res (map_err DBError (load_object_state io t oid)) (\<lambda>found.
              bind_res (ok_or found (MissingData (show_id oid) ''object_state'')) (\<lambda>snapshot.
              bind_res (map_err DBError (load_controller_state io t oid snapshot)) (\<lambda>cs.
                Inr (snapshot, cs))))) of
             Inl e \<Rightarrow> failed e
           | Inr (snapshot, cs) \<Rightarrow>
               (let above = state_above_sla io cs snapshot;
                    metrics = default_metrics\<lparr>initial_state := Some (ver_value cs),
                                              time_in_state_above_sla := above\<rparr>;
                    timed_out = metrics\<lparr>om_error := Some (Timeout (show_id oid) (show_state (ver_value cs)))\<rparr>
                in case commit_load env of
                     Some e \<Rightarrow> (db, metrics\<lparr>om_error := Some (TransactionError e)\<rparr>)
                   | None \<Rightarrow>
                       (case handler oid snapshot (ver_value cs) db of (db1, handler_output, pending) \<Rightarrow>
                          (case finish_object io env oid cs above db1 handler_output pending of
                             (db2, result, next) \<Rightarrow>
                               (case time_limit env of
                                  TimeoutHandling \<Rightarrow> (db1, timed_out)
                                | TimeoutCommitting \<Rightarrow> (db2, timed_out)
                                | _ \<Rightarrow> (db2, metrics\<lparr>next_state := next,
                                                om_error := (case result of Inl e \<Rightarrow> Some e | Inr _ \<Rightarrow> None)\<rparr>))))))"

section \<open>One pass over an object, case by case\<close>

text \<open>What was loaded and what the handler did: the part of a run before \<open>finish_object\<close>.\<close>

definition loaded ::
    "('db, 'o, 's, 'cs, 'd) controller_io \<Rightarrow> 'db \<Rightarrow> 'o \<Rightarrow> 's \<Rightarrow> ('cs, 'd) versioned \<Rightarrow> bool" where
  "loaded io db oid snapshot cs \<longleftrightarrow>
     load_object_state io db oid = Inr (Some snapshot) \<and> load_controller_state io db oid snapshot = Inr cs"

lemma map_err_Inr_iff [simp]: "map_err f r = Inr x \<longleftrightarrow> r = Inr x"
  by (cases r) auto

lemma begin_txn_Inr_iff [simp]: "begin_txn f db = Inr t \<longleftrightarrow> f = None \<and> t = db"
  by (auto simp: begin_txn_def split: option.splits)

lemma process_object_cases:
  assumes "process_object io handler show_id show_state env db oid = (db2, m)"
  obtains (not_handled) "db2 = db" "next_state m = None" "om_error m \<noteq> None"
  | (handled) snapshot cs db1 out pending result nxt db3 where
      "loaded io db oid snapshot cs" "handler oid snapshot (ver_value cs) db = (db1, out, pending)"
      "finish_object io env oid cs (state_above_sla io cs snapshot) db1 out pending = (db3, result, nxt)"
      "db2 = (if time_limit env = TimeoutHandling then db1 else db3)"
      "next_state m = (if time_limit env = NoTimeout then nxt else None)"
      "om_error m = (if time_limit env = NoTimeout then (case result of Inl e \<Rightarrow> Some e | Inr _ \<Rightarrow> None)
                     else Some (Timeout (show_id oid) (show_state (ver_value cs))))"
      "time_limit env \<noteq> TimeoutLoading"
proof (cases "time_limit env = TimeoutLoading")
  case True
  with assms not_handled show ?thesis by (auto simp: process_object_def default_metrics_def)
next
  case False
  let ?load = "bind_res (begin_txn (begin_load env) db) (\<lambda>t.
              bind_res (map_err DBError (load_object_state io t oid)) (\<lambda>found.
              bind_res (ok_or found (MissingData (show_id oid) ''object_state'')) (\<lambda>snapshot.
              bind_res (map_err DBError (load_controller_state io t oid snapshot)) (\<lambda>cs.
                Inr (snapshot, cs)))))"
  show ?thesis
  proof (cases ?load)
    case (Inl e)
    with False assms not_handled show ?thesis
      by (auto simp: process_object_def default_metrics_def Let_def)
  next
    case (Inr sc)
    obtain snapshot cs where sc: "sc = (snapshot, cs)" by (cases sc)
    from Inr have l: "loaded io db oid snapshot cs"
      by (auto simp: sc loaded_def bind_res_Inr_iff)
    show ?thesis
    proof (cases "commit_load env")
      case (Some e)
      with Inr False assms not_handled show ?thesis
        by (auto simp: process_object_def default_metrics_def Let_def sc)
    next
      case None
      obtain db1 out pending where h: "handler oid snapshot (ver_value cs) db = (db1, out, pending)"
        by (cases "handler oid snapshot (ver_value cs) db")
      obtain db3 result nxt where f: "finish_object io env oid cs (state_above_sla io cs snapshot) db1 out pending
          = (db3, result, nxt)"
        by (cases "finish_object io env oid cs (state_above_sla io cs snapshot) db1 out pending")
      from Inr None False assms h f show ?thesis
        by (intro handled [OF l h f]) (auto simp: process_object_def default_metrics_def Let_def sc split: time_limit.splits)
    qed
  qed
qed

lemma select_txn_Inr:
  assumes "select_txn env db1 out pending = Inr (ho, t)"
  shows "(\<exists>e. out = Inl e \<and> ho = Inl e \<and> t = db1)
    \<or> (\<exists>o' t0 e. out = Inr o' \<and> ho = Inl e \<and> apply_all pending t0 = (Some e, t))
    \<or> (\<exists>o' t0. out = Inr o' \<and> ho = Inr (snd (take_transaction o')) \<and> apply_all pending t0 = (None, t)
          \<and> (fst (take_transaction o') = Some t0 \<or> fst (take_transaction o') = None \<and> t0 = db1))"
  using assms
  by (auto simp: select_txn_def bind_res_Inr_iff split: sum.splits option.splits prod.splits)

lemma select_txn_deleted:
  assumes "select_txn env db1 out pending = Inr (Inr (Deleted l x), t)"
  shows "\<exists>l x. out = Inr (Deleted l x)"
proof -
  from select_txn_Inr [OF assms] obtain o' where "out = Inr o'" "snd (take_transaction o') = Deleted l x" by auto
  then show ?thesis by (cases o') auto
qed

lemma persist_transition_Inr:
  assumes "persist_transition io env oid cs ho t = Inr (nxt, t')"
  shows "(nxt = None \<and> t' = t \<and> (\<forall>s l x. ho \<noteq> Inr (Transition s l x)))
    \<or> (\<exists>s l x. ho = Inr (Transition s l x) \<and> nxt = Some s \<and>
         (persist_controller_state io t oid (ver_version cs) (increment (ver_version cs) (increment_time env)) s
            = Inr (False, t')
          \<or> (\<exists>u. persist_controller_state io t oid (ver_version cs)
                    (increment (ver_version cs) (increment_time env)) s = Inr (True, u)
              \<and> persist_state_history io u oid (increment (ver_version cs) (increment_time env)) s = Inr t')))"
  using assms
  by (cases ho; cases "projr ho")
     (auto simp: persist_transition_def Let_def bind_res_Inr_iff split: if_splits prod.splits sum.splits)

lemma store_outcome_db:
  assumes "store_outcome io env oid db1 ok ho t = (db2, r)"
  shows "db2 = db1 \<or> (\<exists>t'. record_outcome io oid ho (if ok then t else db1) = Inr t' \<and> db2 = t')"
  using assms
  by (cases "commit_persist env"; cases "commit_outcome env")
     (auto simp: store_outcome_def bind_res_Inr_iff split: if_splits sum.splits)

lemma store_outcome_ok:
  assumes "store_outcome io env oid db1 ok ho t = (db2, Inr u)"
  shows "record_outcome io oid ho (if ok then t else db1) = Inr db2"
  using assms
  by (cases "commit_persist env"; cases "commit_outcome env")
     (auto simp: store_outcome_def bind_res_Inr_iff split: if_splits sum.splits)

lemma record_outcome_Inr:
  "record_outcome io oid ho t = Inr t' \<Longrightarrow>
     t' = t \<and> (\<exists>l x. ho = Inr (Deleted l x)) \<or> (\<exists>po. from_result ho = Some po \<and> persist_outcome io t oid po = Inr t')"
  by (cases ho rule: from_result.cases) (auto simp: record_outcome_def)

lemma apply_sla_Transition [simp]: "apply_sla late (Inr (Transition s l x)) = Inr (Transition s l x)"
  by (simp add: apply_sla_def)

lemma finish_object_next:
  assumes "finish_object io env oid cs late db1 out pending = (db3, result, Some s)"
  shows "(\<exists>l x. out = Inr (Transition s l x)) \<and> (\<exists>l. result = Inr (Transition s l None))"
proof -
  from assms obtain ho t t' where sel: "select_txn env db1 out pending = Inr (ho, t)"
    and per: "persist_transition io env oid cs ho t = Inr (Some s, t')"
    and res: "result = apply_sla late ho"
    by (auto simp: finish_object_def Let_def split: sum.splits prod.splits unit.splits)
  from persist_transition_Inr [OF per] obtain l x where ho: "ho = Inr (Transition s l x)" by auto
  with select_txn_Inr [OF sel] obtain o' where "out = Inr o'" "snd (take_transaction o') = Transition s l x"
    by auto
  with ho res show ?thesis by (cases o') auto
qed

text \<open>After a deletion nothing is written but the handler's transaction, or the error of a deferred write.\<close>

definition deletion_txn :: "'db \<Rightarrow> 'db option \<Rightarrow> 'db write_op list \<Rightarrow> 'db" where
  "deletion_txn db1 x pending = snd (apply_all pending (case x of Some t \<Rightarrow> t | None \<Rightarrow> db1))"

lemma finish_object_deleted:
  assumes fin: "finish_object io env oid cs late db1 out pending = (db3, result, nxt)" and out: "out = Inr (Deleted l x)"
  shows "db3 = db1 \<or> db3 = deletion_txn db1 x pending \<or> (\<exists>po. persist_outcome io db1 oid po = Inr db3)"
proof -
  let ?t0 = "case x of Some t \<Rightarrow> t | None \<Rightarrow> db1"
  obtain e t where ap: "apply_all pending ?t0 = (e, t)" by (cases "apply_all pending ?t0")
  show ?thesis
  proof (cases "select_txn env db1 out pending")
    case (Inl a)
    with fin show ?thesis by (simp add: finish_object_def)
  next
    case (Inr hot)
    then obtain ho where hot: "hot = (ho, t)" "ho = (case e of Some e \<Rightarrow> Inl e | None \<Rightarrow> Inr (Deleted l None))" using ap out
      by (auto simp: select_txn_def begin_txn_def split: option.splits)
    have per: "persist_transition io env oid cs ho t = Inr (None, t)"
      by (simp add: persist_transition_def hot(2) split: option.split)
    obtain r where "store_outcome io env oid db1 (e = None) (apply_sla late ho) t = (db3, r)"
      using fin Inr hot per
      by (cases e) (auto simp: finish_object_def Let_def split: prod.splits sum.splits unit.splits)
    from store_outcome_db [OF this] ap show ?thesis
      by (cases e) (auto simp: apply_sla_def deletion_txn_def hot(2) dest!: record_outcome_Inr)
  qed
qed

subsection \<open>Runs in which nothing fails\<close>

definition healthy_txn :: "'d txn_env \<Rightarrow> bool" where
  "healthy_txn env \<longleftrightarrow> begin_load env = None \<and> commit_load env = None \<and> begin_persist env = None
     \<and> commit_persist env = Committed \<and> time_limit env = NoTimeout"

lemma process_object_healthy:
  assumes "healthy_txn env" "loaded io db oid sn cs" "handler oid sn (ver_value cs) db = (db1, out, pending)"
  shows "fst (process_object io handler show_id show_state env db oid)
    = fst (finish_object io env oid cs (state_above_sla io cs sn) db1 out pending)"
  using assms
  by (cases "finish_object io env oid cs (state_above_sla io cs sn) db1 out pending")
     (simp add: process_object_def healthy_txn_def loaded_def begin_txn_def Let_def)

lemma finish_transition:
  assumes "healthy_txn env" "x = None \<or> x = Some db1"
    and "persist_controller_state io db1 oid (ver_version cs) (increment (ver_version cs) (increment_time env)) s = Inr (True, u)"
    and "persist_state_history io u oid (increment (ver_version cs) (increment_time env)) s = Inr u'"
    and "persist_outcome io u' oid (PTransition (Some l)) = Inr db2"
  shows "fst (finish_object io env oid cs late db1 (Inr (Transition s l x)) []) = db2"
  using assms(2)
  by (elim disjE) (simp_all add: finish_object_def select_txn_def persist_transition_def store_outcome_def
      record_outcome_def begin_txn_def Let_def assms(3-5) assms(1) [unfolded healthy_txn_def] split: unit.split)

lemma finish_wait:
  assumes "healthy_txn env" "persist_outcome io db1 oid (PWait reason (Some l)) = Inr db2"
  shows "fst (finish_object io env oid cs False db1 (Inr (Wait reason l (Some db1))) []) = db2"
  using assms
  by (simp add: finish_object_def select_txn_def persist_transition_def store_outcome_def record_outcome_def
      healthy_txn_def begin_txn_def Let_def apply_sla_def split: unit.split)

lemma finish_deleted:
  assumes "healthy_txn env"
  shows "fst (finish_object io env oid cs late db1 (Inr (Deleted l (Some t))) []) = t"
  using assms
  by (simp add: finish_object_def select_txn_def persist_transition_def store_outcome_def record_outcome_def
      healthy_txn_def begin_txn_def Let_def apply_sla_def split: unit.split)

subsection \<open>Invariants of the database\<close>

definition handler_keeps ::
    "('db \<Rightarrow> bool) \<Rightarrow> 'db \<times> (state_handler_error + ('cs, 'db) state_handler_outcome) \<times> 'db write_op list \<Rightarrow> bool" where
  "handler_keeps ok h = (case h of (db1, out, pending) \<Rightarrow>
     ok db1 \<and> (\<forall>o' t. out = Inr o' \<longrightarrow> fst (take_transaction o') = Some t \<longrightarrow> ok t)
     \<and> (\<forall>w \<in> set pending. \<forall>t t'. ok t \<longrightarrow> w t = Inr t' \<longrightarrow> ok t'))"

definition io_keeps :: "('db \<Rightarrow> bool) \<Rightarrow> ('db, 'o, 's, 'cs, 'd) controller_io \<Rightarrow> bool" where
  "io_keeps ok io \<longleftrightarrow>
     (\<forall>db oid old new cs b db'. ok db \<longrightarrow> persist_controller_state io db oid old new cs = Inr (b, db') \<longrightarrow> ok db')
     \<and> (\<forall>db oid new cs db'. ok db \<longrightarrow> persist_state_history io db oid new cs = Inr db' \<longrightarrow> ok db')
     \<and> (\<forall>db oid po db'. ok db \<longrightarrow> persist_outcome io db oid po = Inr db' \<longrightarrow> ok db')"

lemma io_keepsD:
  assumes "io_keeps ok io" "ok db"
  shows "persist_controller_state io db oid old new cs = Inr (b, db') \<Longrightarrow> ok db'"
    and "persist_state_history io db oid new cs = Inr db' \<Longrightarrow> ok db'"
    and "persist_outcome io db oid po = Inr db' \<Longrightarrow> ok db'"
  using assms unfolding io_keeps_def by blast+

lemma apply_all_keeps:
  "\<forall>w \<in> set ws. \<forall>t t'. ok t \<longrightarrow> w t = Inr t' \<longrightarrow> ok t' \<Longrightarrow> ok t \<Longrightarrow> ok (snd (apply_all ws t))"
proof (induction ws arbitrary: t)
  case (Cons w ws)
  from Cons.prems(1) have ws: "\<forall>w \<in> set ws. \<forall>t t'. ok t \<longrightarrow> w t = Inr t' \<longrightarrow> ok t'" by (meson list.set_intros(2))
  show ?case
  proof (cases "w t")
    case (Inl e)
    show ?thesis by (simp add: Inl Cons.prems(2))
  next
    case (Inr t')
    with Cons.prems have "ok t'" by (meson list.set_intros(1))
    from Cons.IH [OF ws this] show ?thesis by (simp add: Inr)
  qed
qed simp

lemma record_outcome_keeps: "io_keeps ok io \<Longrightarrow> ok t \<Longrightarrow> record_outcome io oid ho t = Inr t' \<Longrightarrow> ok t'"
  by (drule record_outcome_Inr) (elim disjE conjE exE, simp, rule io_keepsD(3))

lemma finish_object_keeps:
  assumes io: "io_keeps ok io" and h: "handler_keeps ok (db1, out, pending)"
    and fin: "finish_object io env oid cs late db1 out pending = (db3, result, nxt)"
  shows "ok db3"
proof -
  have db1: "ok db1" using h by (simp add: handler_keeps_def)
  have sel: "ok t" if "select_txn env db1 out pending = Inr (ho, t)" for ho t
  proof (cases out)
    case (Inl e)
    with that db1 show ?thesis by (auto simp: select_txn_def elim!: bind_res_InrE)
  next
    case (Inr o')
    with that obtain t0 where t0: "ok t0" "t = snd (apply_all pending t0)"
      using h db1 by (auto simp: select_txn_def handler_keeps_def elim!: bind_res_InrE split: option.split_asm prod.split_asm)
    with apply_all_keeps [of pending ok t0] h show ?thesis by (simp add: handler_keeps_def)
  qed
  have per: "ok t'" if "persist_transition io env oid cs ho t = Inr (n, t')" "ok t" for ho t n t'
    using persist_transition_Inr [OF that(1)]
  proof (elim disjE exE conjE)
    assume "t' = t"
    with that(2) show ?thesis by simp
  next
    fix s
    assume "persist_controller_state io t oid (ver_version cs) (increment (ver_version cs) (increment_time env)) s = Inr (False, t')"
    then show ?thesis by (rule io_keepsD(1) [OF io that(2)])
  next
    fix s u
    assume "persist_controller_state io t oid (ver_version cs) (increment (ver_version cs) (increment_time env)) s = Inr (True, u)"
      and "persist_state_history io u oid (increment (ver_version cs) (increment_time env)) s = Inr t'"
    then show ?thesis by (rule io_keepsD(2) [OF io io_keepsD(1) [OF io that(2)]])
  qed
  show ?thesis
  proof (cases "select_txn env db1 out pending")
    case (Inl e)
    with fin db1 show ?thesis by (simp add: finish_object_def)
  next
    case (Inr hot)
    obtain ho t where hot: "hot = (ho, t)" by (cases hot)
    show ?thesis
    proof (cases "persist_transition io env oid cs ho t")
      case (Inl e)
      with fin db1 Inr hot show ?thesis by (simp add: finish_object_def)
    next
      case pt: (Inr nt)
      obtain n t' where nt: "nt = (n, t')" by (cases nt)
      have t': "ok t'" by (rule per [OF pt [unfolded nt] sel [OF Inr [unfolded hot]]])
      obtain r where "store_outcome io env oid db1 (\<not> isl ho) (apply_sla late ho) t' = (db3, r)"
        using fin Inr pt by (auto simp: finish_object_def Let_def hot nt split: prod.splits sum.splits unit.splits)
      from store_outcome_db [OF this] show ?thesis
      proof (elim disjE exE conjE)
        fix u
        assume "record_outcome io oid (apply_sla late ho) (if \<not> isl ho then t' else db1) = Inr u" "db3 = u"
        moreover have "ok (if \<not> isl ho then t' else db1)" using db1 t' by simp
        ultimately show ?thesis using record_outcome_keeps [OF io] by blast
      qed (simp add: db1)
    qed
  qed
qed

lemma process_object_keeps:
  assumes io: "io_keeps ok io" and db: "ok db" and h: "\<And>sn cs. handler_keeps ok (handler oid sn cs db)"
  shows "ok (fst (process_object io handler show_id show_state env db oid))"
proof (cases "process_object io handler show_id show_state env db oid")
  case (Pair db2 m)
  then show ?thesis
  proof (cases rule: process_object_cases)
    case not_handled
    with db Pair show ?thesis by simp
  next
    case (handled snapshot cs db1 out pending result nxt db3)
    have "handler_keeps ok (db1, out, pending)" using h [of snapshot "ver_value cs"] handled(2) by simp
    with finish_object_keeps [OF io this handled(3)] handled(4) Pair show ?thesis by (simp add: handler_keeps_def)
  qed
qed

section \<open>The contract of the stored lifecycle state\<close>

text \<open>\<open>stored\<close> reads the lifecycle state of each object from the database and \<open>history\<close> its list
  of recorded states.\<close>

definition same_state ::
    "('db \<Rightarrow> 'o \<Rightarrow> ('cs, 'd) versioned option) \<Rightarrow> ('db \<Rightarrow> 'o \<Rightarrow> ('d config_version \<times> 'cs) list)
       \<Rightarrow> 'db \<Rightarrow> 'db \<Rightarrow> bool" where
  "same_state stored history a b \<longleftrightarrow> stored a = stored b \<and> history a = history b"

text \<open>The handler itself, its transaction and its deferred writes leave lifecycle states alone, unless the
  object was deleted.\<close>

definition handler_frame ::
    "('db \<Rightarrow> 'o \<Rightarrow> ('cs, 'd) versioned option) \<Rightarrow> ('db \<Rightarrow> 'o \<Rightarrow> ('d config_version \<times> 'cs) list)
       \<Rightarrow> 'db \<Rightarrow> state_handler_error + ('cs, 'db) state_handler_outcome \<Rightarrow> 'db write_op list \<Rightarrow> bool" where
  "handler_frame stored history db1 out pending \<longleftrightarrow>
     (\<forall>o' t0. out = Inr o' \<longrightarrow> (\<forall>l x. o' \<noteq> Deleted l x) \<longrightarrow> fst (take_transaction o') = Some t0
        \<longrightarrow> same_state stored history t0 db1)
     \<and> (\<forall>w \<in> set pending. \<forall>t t'. w t = Inr t' \<longrightarrow> same_state stored history t' t)"

text \<open>Exactly one object moved: from version \<open>v\<close> to state \<open>s\<close> under the next version, with one new
  history entry.\<close>

definition stepped ::
    "('db \<Rightarrow> 'o \<Rightarrow> ('cs, 'd) versioned option) \<Rightarrow> ('db \<Rightarrow> 'o \<Rightarrow> ('d config_version \<times> 'cs) list)
       \<Rightarrow> 'db \<Rightarrow> 'db \<Rightarrow> 'o \<Rightarrow> 'd config_version \<Rightarrow> 'd \<Rightarrow> 'cs \<Rightarrow> bool" where
  "stepped stored history db1 db2 oid v d s \<longleftrightarrow>
     (\<exists>w. stored db1 oid = Some w \<and> ver_version w = v)
     \<and> stored db2 = (stored db1)(oid \<mapsto> \<lparr>ver_value = s, ver_version = increment v d\<rparr>)
     \<and> history db2 = (history db1)(oid := keep_limit (history db1 oid @ [(increment v d, s)]))"

locale controller_store =
  fixes io :: "('db, 'o, 's, 'cs, 'd) controller_io"
    and stored :: "'db \<Rightarrow> 'o \<Rightarrow> ('cs, 'd) versioned option"
    and history :: "'db \<Rightarrow> 'o \<Rightarrow> ('d config_version \<times> 'cs) list"
  assumes load_stored: "loaded io db oid sn v \<Longrightarrow> stored db oid = Some v"
    and persist_matching: "persist_controller_state io db oid old new cs = Inr (True, db') \<Longrightarrow>
      (\<exists>v. stored db oid = Some v \<and> ver_version v = old)
      \<and> stored db' = (stored db)(oid \<mapsto> \<lparr>ver_value = cs, ver_version = new\<rparr>) \<and> history db' = history db"
    and persist_skipped: "persist_controller_state io db oid old new cs = Inr (False, db') \<Longrightarrow>
      \<not> (\<exists>v. stored db oid = Some v \<and> ver_version v = old)
      \<and> stored db' = stored db \<and> history db' = history db"
    and history_appended: "persist_state_history io db oid new cs = Inr db' \<Longrightarrow>
      history db' = (history db)(oid := keep_limit (history db oid @ [(new, cs)])) \<and> stored db' = stored db"
    and outcome_frame: "persist_outcome io db oid po = Inr db' \<Longrightarrow> stored db' = stored db \<and> history db' = history db"
begin

lemma apply_all_same_state:
  "(\<forall>w \<in> set ws. \<forall>t t'. w t = Inr t' \<longrightarrow> same_state stored history t' t) \<Longrightarrow> same_state stored history (snd (apply_all ws t)) t"
proof (induction ws arbitrary: t)
  case (Cons w ws)
  then show ?case
    by (cases "w t") (fastforce simp: same_state_def)+
qed (simp add: same_state_def)

lemma select_txn_same_state:
  assumes "handler_frame stored history db1 out pending" and "select_txn env db1 out pending = Inr (Inr o', t)"
    and "\<forall>l x. o' \<noteq> Deleted l x"
  shows "same_state stored history t db1"
proof -
  from select_txn_Inr [OF assms(2)] obtain p t0 where p: "out = Inr p" "apply_all pending t0 = (None, t)"
      "o' = snd (take_transaction p)" "fst (take_transaction p) = Some t0 \<or> fst (take_transaction p) = None \<and> t0 = db1"
    by auto
  moreover from this(3) assms(3) have "\<forall>l x. p \<noteq> Deleted l x" by (cases p) auto
  ultimately have "same_state stored history t0 db1" using assms(1) by (auto simp: handler_frame_def same_state_def)
  with apply_all_same_state [of pending t0] p(2) assms(1) show ?thesis
    by (simp add: handler_frame_def same_state_def)
qed

lemma record_outcome_same_state: "record_outcome io oid ho t = Inr t' \<Longrightarrow> same_state stored history t' t"
  by (auto dest!: record_outcome_Inr outcome_frame simp: same_state_def)

lemma finish_object_step:
  assumes frame: "handler_frame stored history db1 out pending"
    and fin: "finish_object io env oid cs late db1 out pending = (db3, result, nxt)"
  shows "same_state stored history db3 db1
    \<or> (\<exists>s l x. out = Inr (Transition s l x) \<and> stepped stored history db1 db3 oid (ver_version cs) (increment_time env) s)
    \<or> (\<exists>l x. out = Inr (Deleted l x))"
proof (cases "select_txn env db1 out pending")
  case (Inl e)
  with fin show ?thesis by (auto simp: finish_object_def same_state_def)
next
  case (Inr hot)
  obtain ho t where hot: "hot = (ho, t)" by (cases hot)
  show ?thesis
  proof (cases "persist_transition io env oid cs ho t")
    case (Inl e)
    with Inr fin show ?thesis by (auto simp: finish_object_def same_state_def hot)
  next
    case pt: (Inr nt)
    obtain n t' where nt: "nt = (n, t')" by (cases nt)
    obtain r where st: "store_outcome io env oid db1 (\<not> isl ho) (apply_sla late ho) t' = (db3, r)"
      using fin Inr pt by (auto simp: finish_object_def Let_def hot nt split: prod.splits sum.splits unit.splits)
    show ?thesis
    proof (cases "db3 = db1 \<or> isl ho")
      case True
      with store_outcome_db [OF st] show ?thesis
        by (auto simp: same_state_def dest: record_outcome_same_state)
    next
      case False
      with store_outcome_db [OF st] have r: "same_state stored history db3 t'"
        by (auto dest: record_outcome_same_state)
      from False obtain o' where o': "ho = Inr o'" by (cases ho) auto
      have sel: "select_txn env db1 out pending = Inr (Inr o', t)" using Inr hot o' by simp
      have t: "same_state stored history t db1 \<or> (\<exists>l x. out = Inr (Deleted l x))"
        using select_txn_same_state [OF frame sel] select_txn_deleted [of env db1 out pending] sel by blast
      from persist_transition_Inr [OF pt [unfolded nt]] show ?thesis
      proof (elim disjE exE conjE)
        assume "t' = t"
        with r t show ?thesis by (auto simp: same_state_def)
      next
        fix s l x
        assume "persist_controller_state io t oid (ver_version cs)
            (increment (ver_version cs) (increment_time env)) s = Inr (False, t')"
        from persist_skipped [OF this] r t show ?thesis by (auto simp: same_state_def)
      next
        fix s l x u
        assume ho: "ho = Inr (Transition s l x)"
          and p: "persist_controller_state io t oid (ver_version cs)
            (increment (ver_version cs) (increment_time env)) s = Inr (True, u)"
          and h: "persist_state_history io u oid (increment (ver_version cs) (increment_time env)) s = Inr t'"
        from ho select_txn_Inr [OF Inr [unfolded hot]]
        obtain p' where "out = Inr p'" "snd (take_transaction p') = Transition s l x" by auto
        then have "\<exists>l x. out = Inr (Transition s l x)" by (cases p') auto
        moreover from this t have "stepped stored history db1 db3 oid (ver_version cs) (increment_time env) s"
          using persist_matching [OF p] history_appended [OF h] r
          by (auto simp: stepped_def same_state_def)
        ultimately show ?thesis by blast
      qed
    qed
  qed
qed

lemma finish_object_reported:
  assumes frame: "handler_frame stored history db1 out pending"
    and fin: "finish_object io env oid cs late db1 out pending = (db3, result, Some s)"
  shows "if \<exists>w. stored db1 oid = Some w \<and> ver_version w = ver_version cs
         then stepped stored history db1 db3 oid (ver_version cs) (increment_time env) s
         else same_state stored history db3 db1"
proof -
  from fin obtain ho t t' where sel: "select_txn env db1 out pending = Inr (ho, t)"
    and per: "persist_transition io env oid cs ho t = Inr (Some s, t')"
    and st: "store_outcome io env oid db1 (\<not> isl ho) (apply_sla late ho) t' = (db3, Inr ())"
    by (auto simp: finish_object_def Let_def split: sum.splits prod.splits unit.splits)
  from persist_transition_Inr [OF per] obtain l x where ho: "ho = Inr (Transition s l x)" by auto
  have t: "same_state stored history t db1" using select_txn_same_state [OF frame] sel ho by auto
  have r: "same_state stored history db3 t'"
    using store_outcome_ok [OF st] ho by (auto dest: record_outcome_same_state)
  from persist_transition_Inr [OF per] ho show ?thesis
    using r t by (auto simp: stepped_def same_state_def dest!: persist_matching persist_skipped history_appended)
qed

text \<open>A whole run: the content is that left by the handler and the processes beside it, up to at most
  one step of the object, which is the transition the handler returned for the version it was
  called with.\<close>

lemma process_object_step:
  assumes run: "process_object io handler show_id show_state env db oid = (db2, m)"
    and frame: "\<forall>sn cs db1 out pending. handler oid sn cs db = (db1, out, pending) \<longrightarrow>
                  handler_frame stored history db1 out pending"
  shows "db2 = db \<or> (\<exists>sn cs db1 out pending.
      loaded io db oid sn cs \<and> stored db oid = Some cs \<and> handler oid sn (ver_value cs) db = (db1, out, pending)
      \<and> (same_state stored history db2 db1
         \<or> (\<exists>s l x. out = Inr (Transition s l x)
              \<and> stepped stored history db1 db2 oid (ver_version cs) (increment_time env) s)
         \<or> (\<exists>l x. out = Inr (Deleted l x) \<and> db2 = deletion_txn db1 x pending)))"
  using run
proof (cases rule: process_object_cases)
  case (handled sn cs db1 out pending result nxt db3)
  have "stored db oid = Some cs" using handled(1) by (rule load_stored)
  moreover have "same_state stored history db2 db1 \<or> (\<exists>s l x. out = Inr (Transition s l x)
      \<and> stepped stored history db1 db2 oid (ver_version cs) (increment_time env) s)
      \<or> (\<exists>l x. out = Inr (Deleted l x) \<and> db2 = deletion_txn db1 x pending)"
  proof (cases "\<exists>l x. out = Inr (Deleted l x)")
    case True
    then obtain l x where o: "out = Inr (Deleted l x)" by auto
    from finish_object_deleted [OF handled(3) o] handled(4) o show ?thesis
      by (auto simp: same_state_def dest: outcome_frame)
  next
    case False
    with finish_object_step [OF frame [rule_format, OF handled(2)] handled(3)] handled(4) show ?thesis
      by (auto simp: same_state_def)
  qed
  ultimately show ?thesis using handled(1,2) by blast
qed simp

lemma process_object_reported:
  assumes run: "process_object io handler show_id show_state env db oid = (db2, m)"
    and frame: "\<forall>sn cs db1 out pending. handler oid sn cs db = (db1, out, pending) \<longrightarrow>
                  handler_frame stored history db1 out pending"
    and nxt: "next_state m = Some s"
  shows "om_error m = None \<and> (\<exists>sn cs db1 pending l x.
      stored db oid = Some cs \<and> handler oid sn (ver_value cs) db = (db1, Inr (Transition s l x), pending)
      \<and> (if \<exists>w. stored db1 oid = Some w \<and> ver_version w = ver_version cs
         then stepped stored history db1 db2 oid (ver_version cs) (increment_time env) s
         else same_state stored history db2 db1))"
  using run
proof (cases rule: process_object_cases)
  case not_handled
  with nxt show ?thesis by simp
next
  case (handled sn cs db1 out pending result nxt db3)
  have st: "stored db oid = Some cs" using handled(1) by (rule load_stored)
  have ok: "time_limit env = NoTimeout" "nxt = Some s" using nxt handled by (auto split: if_splits)
  from finish_object_next [OF handled(3) [unfolded ok(2)]]
  obtain l x l' where o: "out = Inr (Transition s l x)" "result = Inr (Transition s l' None)" by auto
  have "om_error m = None" using handled(6) ok o by simp
  moreover have "db2 = db3" using handled(4) ok by simp
  ultimately show ?thesis
    using st handled(2) o finish_object_reported [OF frame [rule_format, OF handled(2)] handled(3) [unfolded ok(2)]]
    by blast
qed

end

end
