(* ===== verification/Dyadic.thy ===== *)
theory Dyadic
  imports Prelude
begin

text \<open>
  Blocks of addresses. A prefix whose host part has \<open>k\<close> bits covers the numbers that agree above
  bit \<open>k\<close>: \<open>dy k q\<close>. The lemmas say that such blocks are nested or disjoint, how a block is made of
  its two halves and of its half and the sibling, and how the operations on machine words that
  the address code uses (shift, mask, exclusive or) act on the pair \<open>(k, q)\<close>. They are collected in
  \<open>net_laws\<close>.
\<close>

definition dy :: "nat \<Rightarrow> nat \<Rightarrow> nat set" where
  "dy k q = {x. x div 2 ^ k = q}"

definition sib :: "nat \<Rightarrow> nat" where
  "sib q = (if even q then Suc q else q - 1)"

lemma in_dy [simp]: "x \<in> dy k q \<longleftrightarrow> x div 2 ^ k = q"
  by (simp add: dy_def)

lemma dy_interval: "dy k q = {q * 2 ^ k ..< Suc q * 2 ^ k}"
proof (rule set_eqI)
  fix x
  have "x div 2 ^ k = q \<longleftrightarrow> q \<le> x div 2 ^ k \<and> x div 2 ^ k < Suc q" by linarith
  also have "\<dots> \<longleftrightarrow> q * 2 ^ k \<le> x \<and> x < Suc q * 2 ^ k"
    by (simp only: less_eq_div_iff_mult_less_eq div_less_iff_less_mult zero_less_power zero_less_numeral)
  finally show "x \<in> dy k q \<longleftrightarrow> x \<in> {q * 2 ^ k ..< Suc q * 2 ^ k}"
    by (simp only: dy_def mem_Collect_eq atLeastLessThan_iff)
qed

lemma interval_pred: "0 < b \<Longrightarrow> {a ..< a + b} = {a .. a + (b - 1 :: nat)}"
  by auto

lemma finite_dy [simp]: "finite (dy k q)"
  by (simp add: dy_interval)

lemma card_dy [simp]: "card (dy k q) = 2 ^ k"
  by (simp add: dy_interval)

lemma start_in_dy [simp]: "q * 2 ^ k \<in> dy k q"
  by simp

lemma dy_nonempty [simp]: "dy k q \<noteq> {}"
  using start_in_dy by blast

lemma div_power_split: "k \<le> j \<Longrightarrow> (x :: nat) div 2 ^ j = x div 2 ^ k div 2 ^ (j - k)"
  by (metis div_mult2_eq le_add_diff_inverse power_add)

lemma dy_subset_iff: "dy k q \<subseteq> dy j r \<longleftrightarrow> k \<le> j \<and> q div 2 ^ (j - k) = r"
proof
  assume sub: "dy k q \<subseteq> dy j r"
  have "2 ^ k \<le> (2 :: nat) ^ j"
    using card_mono [OF finite_dy sub] by simp
  then have "k \<le> j" by simp
  moreover have "q * 2 ^ k \<in> dy j r" using sub start_in_dy by blast
  ultimately show "k \<le> j \<and> q div 2 ^ (j - k) = r"
    by (simp add: div_power_split [of k j])
next
  assume "k \<le> j \<and> q div 2 ^ (j - k) = r"
  then show "dy k q \<subseteq> dy j r" by (auto simp: div_power_split [of k j])
qed

lemma dy_eq_iff [simp]: "dy k q = dy j r \<longleftrightarrow> k = j \<and> q = r"
  by (auto simp: set_eq_subset dy_subset_iff)

lemma dy_laminar: "dy k q \<inter> dy j r = {} \<or> dy k q \<subseteq> dy j r \<or> dy j r \<subseteq> dy k q"
proof (cases "k \<le> j")
  case True
  then show ?thesis by (auto simp: div_power_split [of k j])
next
  case False
  then show ?thesis by (auto simp: div_power_split [of j k])
qed

lemma sib_neq [simp]: "sib q \<noteq> q" "q \<noteq> sib q"
  by (auto simp: sib_def elim: oddE)

lemma sib_sib [simp]: "sib (sib q) = q"
  by (auto simp: sib_def elim: oddE)

lemma sib_div2 [simp]: "sib q div 2 = q div 2"
  by (auto simp: sib_def elim: evenE oddE)

lemma dy_disjoint_sib [simp]: "dy k q \<inter> dy k (sib q) = {}"
  by auto

lemma dy_Suc: "dy (Suc k) r = {x. x div 2 ^ k div 2 = r}"
  by (simp add: dy_def div_mult2_eq [of _ "2 ^ k" 2, symmetric] mult.commute)

lemma dy_union_sib: "dy k q \<union> dy k (sib q) = dy (Suc k) (q div 2)"
proof -
  have "r = q \<or> r = sib q" if "r div 2 = q div 2" for r
    using that by (auto simp: sib_def elim!: evenE oddE)
  then have "x div 2 ^ k div 2 = q div 2 \<longleftrightarrow> x div 2 ^ k = q \<or> x div 2 ^ k = sib q" for x
    using sib_div2 [of q] by metis
  then show ?thesis unfolding dy_Suc by (auto simp: set_eq_iff)
qed

lemma dy_halves: "dy (Suc k) q = dy k (2 * q) \<union> dy k (Suc (2 * q))"
  using dy_union_sib [of k "2 * q"] by (simp add: sib_def)

lemma dy_parent_subset:
  assumes "dy k q \<subset> dy j r"
  shows "dy (Suc k) (q div 2) \<subseteq> dy j r"
proof -
  from assms have "k \<le> j" and r: "q div 2 ^ (j - k) = r" and "dy k q \<noteq> dy j r"
    by (auto simp: psubset_eq dy_subset_iff)
  then have "k < j" by (auto simp: le_less)
  then obtain d where d: "j = Suc (k + d)" using less_iff_Suc_add by auto
  have "q div 2 div 2 ^ d = q div 2 ^ Suc d" by (simp add: div_mult2_eq)
  with r d show ?thesis by (simp add: dy_subset_iff)
qed

section \<open>Machine words\<close>

lemma unat_drop_bit: "unat (drop_bit k x) = unat x div 2 ^ k"
  by (subst unat_drop_bit_eq) (rule drop_bit_eq_div)

lemma drop_bit_eq_iff: "drop_bit k x = drop_bit k y \<longleftrightarrow> unat x div 2 ^ k = unat y div 2 ^ k"
  by (metis unat_drop_bit word_unat_eq_iff)

lemma unat_two_power [simp]: "k < LENGTH('a) \<Longrightarrow> unat (2 ^ k :: 'a::len word) = 2 ^ k"
proof -
  have "unat (push_bit k 1 :: 'a word) = take_bit LENGTH('a) (push_bit k 1)"
    by (simp only: unsigned_push_bit_eq unsigned_1)
  then show "k < LENGTH('a) \<Longrightarrow> unat (2 ^ k :: 'a word) = 2 ^ k"
    by (simp add: push_bit_of_1 take_bit_nat_eq_self)
qed

end
