(* ===== verification/Ip_Prefix.thy ===== *)
theory Ip_Prefix
  imports Dyadic
begin

text \<open>
  IP prefixes (\<open>src/crates/network/src/ip/prefix.rs\<close>): networks whose address bits after the prefix
  are zero, with containment, siblings, halving and aggregation.

  The network types \<open>Ipv4Net\<close> and \<open>Ipv6Net\<close> come from the package \<open>ipnet\<close>. Its functions are the
  record \<open>ipnet_ops\<close> over a network type \<open>'n\<close> and addresses of type \<open>'a word\<close>; the order of networks
  is the order of the type \<open>'n\<close>. The locale \<open>ipnet_api\<close> states the documented behaviour. The structs
  \<open>Ipv4Prefix\<close> and \<open>Ipv6Prefix\<close> have one field, so a prefix is its network, and \<open>canonical\<close> is the
  guarantee on it. \<open>host_bits\<close> and \<open>covers\<close> read a network as a block of addresses. A panic is \<open>None\<close>.
\<close>

unbundle bit_operations_syntax

section \<open>The network types\<close>

record (overloaded) ('n, 'a::len) ipnet_ops =
  net_addr :: "'n \<Rightarrow> 'a word"
  net_prefix_len :: "'n \<Rightarrow> nat"
  net_network :: "'n \<Rightarrow> 'a word"
  net_broadcast :: "'n \<Rightarrow> 'a word"
  net_new :: "'a word \<Rightarrow> nat \<Rightarrow> 'n option"
  net_from_addr :: "'a word \<Rightarrow> 'n"
  net_contains :: "'n \<Rightarrow> 'n \<Rightarrow> bool"
  net_supernet :: "'n \<Rightarrow> 'n option"
  net_trunc :: "'n \<Rightarrow> 'n"
  net_parse :: "string \<Rightarrow> string + 'n"
  net_show :: "'n \<Rightarrow> string"

definition host_bits :: "('n, 'a::len) ipnet_ops \<Rightarrow> 'n \<Rightarrow> nat" where
  "host_bits ops n = LENGTH('a) - net_prefix_len ops n"

definition block_no :: "('n, 'a::len) ipnet_ops \<Rightarrow> 'n \<Rightarrow> nat" where
  "block_no ops n = unat (net_addr ops n) div 2 ^ host_bits ops n"

definition covers :: "('n, 'a::len) ipnet_ops \<Rightarrow> 'n \<Rightarrow> nat set" where
  "covers ops n = dy (host_bits ops n) (block_no ops n)"

definition canonical :: "('n, 'a::len) ipnet_ops \<Rightarrow> 'n \<Rightarrow> bool" where
  "canonical ops n \<longleftrightarrow> net_addr ops n = net_network ops n"

section \<open>Definitions\<close>

datatype prefix_error = NonCanonicalRepresentation | ParseError string | BadPrefixLength

datatype ip_addr = V4Addr u32 | V6Addr u128

datatype ('n4, 'n6) ip_prefix = V4 'n4 | V6 'n6

datatype ip_address_family = Ipv4 | Ipv6

subsection \<open>IPv4\<close>

definition ipv4_contains :: "('n, 32) ipnet_ops \<Rightarrow> 'n \<Rightarrow> 'n \<Rightarrow> bool" where
  "ipv4_contains ops p other = net_contains ops p other"

definition ipv4_get_sibling :: "('n, 32) ipnet_ops \<Rightarrow> 'n \<Rightarrow> 'n option option" where
  "ipv4_get_sibling ops p =
     (let prefix_length = net_prefix_len ops p in
      if prefix_length = 0 then Some None
      else if prefix_length \<le> 32 then
        (let addr_bits = net_addr ops p;
             shift_amount = 32 - prefix_length;
             single_bit_flip = push_bit shift_amount 1;
             sibling_addr_bits = addr_bits XOR single_bit_flip
         in map_option Some (net_new ops sibling_addr_bits prefix_length))
      else None)"

definition ipv4_bifurcate :: "('n, 32) ipnet_ops \<Rightarrow> 'n \<Rightarrow> ('n \<times> 'n) option option" where
  "ipv4_bifurcate ops p =
     (let n = net_prefix_len ops p in
      if n \<le> 31 then
        (let addr_bits = net_addr ops p;
             single_bit_flip = drop_bit n 0x80000000;
             odd_addr_bits = addr_bits OR single_bit_flip;
             new_prefix_length = n + 1
         in case net_new ops addr_bits new_prefix_length of
              None \<Rightarrow> None
            | Some even_net \<Rightarrow>
                map_option (\<lambda>odd_net. Some (even_net, odd_net)) (net_new ops odd_addr_bits new_prefix_length))
      else Some None)"

definition ipv4_get_last_subprefix :: "('n, 32) ipnet_ops \<Rightarrow> 'n \<Rightarrow> 'n" where
  "ipv4_get_last_subprefix ops p = net_from_addr ops (net_broadcast ops p)"

definition ipv4_try_aggregate :: "('n, 32) ipnet_ops \<Rightarrow> 'n \<Rightarrow> 'n \<Rightarrow> 'n option" where
  "ipv4_try_aggregate ops p1 p2 =
     (if ipv4_contains ops p1 p2 then Some p1
      else if ipv4_contains ops p2 p1 then Some p2
      else case (net_supernet ops p1, net_supernet ops p2) of
             (Some super1, Some super2) \<Rightarrow> if super1 = super2 then Some super1 else None
           | _ \<Rightarrow> None)"

definition ipv4_prefix_try_from :: "('n, 32) ipnet_ops \<Rightarrow> 'n \<Rightarrow> prefix_error + 'n" where
  "ipv4_prefix_try_from ops value =
     (if net_addr ops value = net_network ops value then Inr value else Inl NonCanonicalRepresentation)"

definition ipv4_prefix_from_str :: "('n, 32) ipnet_ops \<Rightarrow> string \<Rightarrow> prefix_error + 'n" where
  "ipv4_prefix_from_str ops s = bind_res (map_err ParseError (net_parse ops s)) (ipv4_prefix_try_from ops)"

subsection \<open>IPv6\<close>

definition ipv6_contains :: "('n, 128) ipnet_ops \<Rightarrow> 'n \<Rightarrow> 'n \<Rightarrow> bool" where
  "ipv6_contains ops p other = net_contains ops p other"

definition ipv6_get_sibling :: "('n, 128) ipnet_ops \<Rightarrow> 'n \<Rightarrow> 'n option option" where
  "ipv6_get_sibling ops p =
     (let prefix_length = net_prefix_len ops p in
      if prefix_length = 0 then Some None
      else if prefix_length \<le> 128 then
        (let addr_bits = net_addr ops p;
             shift_amount = 128 - prefix_length;
             single_bit_flip = push_bit shift_amount 1;
             sibling_addr_bits = addr_bits XOR single_bit_flip
         in map_option Some (net_new ops sibling_addr_bits prefix_length))
      else None)"

definition ipv6_bifurcate :: "('n, 128) ipnet_ops \<Rightarrow> 'n \<Rightarrow> ('n \<times> 'n) option option" where
  "ipv6_bifurcate ops p =
     (let n = net_prefix_len ops p in
      if n \<le> 127 then
        (let even_addr_bits = net_addr ops p;
             single_bit_flip = drop_bit n 0x8000000000000000;
             odd_addr_bits = even_addr_bits OR single_bit_flip;
             new_prefix_length = n + 1
         in case net_new ops even_addr_bits new_prefix_length of
              None \<Rightarrow> None
            | Some even_net \<Rightarrow>
                map_option (\<lambda>odd_net. Some (even_net, odd_net)) (net_new ops odd_addr_bits new_prefix_length))
      else Some None)"

definition ipv6_get_last_subprefix :: "('n, 128) ipnet_ops \<Rightarrow> 'n \<Rightarrow> 'n" where
  "ipv6_get_last_subprefix ops p = net_from_addr ops (net_broadcast ops p)"

definition ipv6_try_aggregate :: "('n, 128) ipnet_ops \<Rightarrow> 'n \<Rightarrow> 'n \<Rightarrow> 'n option" where
  "ipv6_try_aggregate ops p1 p2 =
     (if ipv6_contains ops p1 p2 then Some p1
      else if ipv6_contains ops p2 p1 then Some p2
      else case (net_supernet ops p1, net_supernet ops p2) of
             (Some super1, Some super2) \<Rightarrow> if super1 = super2 then Some super1 else None
           | _ \<Rightarrow> None)"

definition ipv6_prefix_try_from :: "('n, 128) ipnet_ops \<Rightarrow> 'n \<Rightarrow> prefix_error + 'n" where
  "ipv6_prefix_try_from ops value =
     (if net_addr ops value = net_network ops value then Inr value else Inl NonCanonicalRepresentation)"

definition ipv6_prefix_from_str :: "('n, 128) ipnet_ops \<Rightarrow> string \<Rightarrow> prefix_error + 'n" where
  "ipv6_prefix_from_str ops s = bind_res (map_err ParseError (net_parse ops s)) (ipv6_prefix_try_from ops)"

subsection \<open>Either family\<close>

type_synonym ('n4, 'n6) families = "('n4, 32) ipnet_ops \<times> ('n6, 128) ipnet_ops"

fun address_family :: "('n4, 'n6) ip_prefix \<Rightarrow> ip_address_family" where
  "address_family (V4 _) = Ipv4"
| "address_family (V6 _) = Ipv6"

fun interface_prefix_len :: "ip_address_family \<Rightarrow> nat" where
  "interface_prefix_len Ipv4 = 32"
| "interface_prefix_len Ipv6 = 128"

fun ip_contains :: "('n4, 'n6) families \<Rightarrow> ('n4, 'n6) ip_prefix \<Rightarrow> ('n4, 'n6) ip_prefix \<Rightarrow> bool" where
  "ip_contains (o4, o6) (V4 prefix) (V4 other) = ipv4_contains o4 prefix other"
| "ip_contains (o4, o6) (V6 prefix) (V6 other) = ipv6_contains o6 prefix other"
| "ip_contains (o4, o6) _ _ = False"

fun ip_get_sibling :: "('n4, 'n6) families \<Rightarrow> ('n4, 'n6) ip_prefix \<Rightarrow> ('n4, 'n6) ip_prefix option option" where
  "ip_get_sibling (o4, o6) (V4 p) = map_option (map_option V4) (ipv4_get_sibling o4 p)"
| "ip_get_sibling (o4, o6) (V6 p) = map_option (map_option V6) (ipv6_get_sibling o6 p)"

fun ip_bifurcate :: "('n4, 'n6) families \<Rightarrow> ('n4, 'n6) ip_prefix
    \<Rightarrow> (('n4, 'n6) ip_prefix \<times> ('n4, 'n6) ip_prefix) option option" where
  "ip_bifurcate (o4, o6) (V4 p) = map_option (map_option (\<lambda>(even, odd). (V4 even, V4 odd))) (ipv4_bifurcate o4 p)"
| "ip_bifurcate (o4, o6) (V6 p) = map_option (map_option (\<lambda>(even, odd). (V6 even, V6 odd))) (ipv6_bifurcate o6 p)"

fun ip_get_last_subprefix :: "('n4, 'n6) families \<Rightarrow> ('n4, 'n6) ip_prefix \<Rightarrow> ('n4, 'n6) ip_prefix" where
  "ip_get_last_subprefix (o4, o6) (V4 p) = V4 (ipv4_get_last_subprefix o4 p)"
| "ip_get_last_subprefix (o4, o6) (V6 p) = V6 (ipv6_get_last_subprefix o6 p)"

fun ip_try_aggregate :: "('n4, 'n6) families \<Rightarrow> ('n4, 'n6) ip_prefix \<Rightarrow> ('n4, 'n6) ip_prefix
    \<Rightarrow> ('n4, 'n6) ip_prefix option" where
  "ip_try_aggregate (o4, o6) (V4 p1) (V4 p2) = map_option V4 (ipv4_try_aggregate o4 p1 p2)"
| "ip_try_aggregate (o4, o6) (V6 p1) (V6 p2) = map_option V6 (ipv6_try_aggregate o6 p1 p2)"
| "ip_try_aggregate (o4, o6) _ _ = None"

fun prefix_length :: "('n4, 'n6) families \<Rightarrow> ('n4, 'n6) ip_prefix \<Rightarrow> nat" where
  "prefix_length (o4, o6) (V4 p) = net_prefix_len o4 p"
| "prefix_length (o4, o6) (V6 p) = net_prefix_len o6 p"

fun addr_to_prefix :: "('n4, 'n6) families \<Rightarrow> ip_addr \<Rightarrow> ('n4, 'n6) ip_prefix" where
  "addr_to_prefix (o4, o6) (V4Addr a) = V4 (net_from_addr o4 a)"
| "addr_to_prefix (o4, o6) (V6Addr a) = V6 (net_from_addr o6 a)"

text \<open>\<open>IpNet\<close> is the sum of the two network types; \<open>to_prefix\<close> truncates, \<open>try_from\<close> refuses.\<close>

fun net_to_prefix :: "('n4, 'n6) families \<Rightarrow> 'n4 + 'n6 \<Rightarrow> ('n4, 'n6) ip_prefix" where
  "net_to_prefix (o4, o6) (Inl n) = V4 (net_trunc o4 n)"
| "net_to_prefix (o4, o6) (Inr n) = V6 (net_trunc o6 n)"

fun ip_prefix_try_from :: "('n4, 'n6) families \<Rightarrow> 'n4 + 'n6 \<Rightarrow> prefix_error + ('n4, 'n6) ip_prefix" where
  "ip_prefix_try_from (o4, o6) (Inl n) = bind_res (ipv4_prefix_try_from o4 n) (\<lambda>p. Inr (V4 p))"
| "ip_prefix_try_from (o4, o6) (Inr n) = bind_res (ipv6_prefix_try_from o6 n) (\<lambda>p. Inr (V6 p))"

fun ip_prefix_from_addr_len :: "('n4, 'n6) families \<Rightarrow> ip_addr \<Rightarrow> nat \<Rightarrow> prefix_error + ('n4, 'n6) ip_prefix" where
  "ip_prefix_from_addr_len (o4, o6) (V4Addr a) l =
     bind_res (ok_or (net_new o4 a l) BadPrefixLength) (\<lambda>n. ip_prefix_try_from (o4, o6) (Inl n))"
| "ip_prefix_from_addr_len (o4, o6) (V6Addr a) l =
     bind_res (ok_or (net_new o6 a l) BadPrefixLength) (\<lambda>n. ip_prefix_try_from (o4, o6) (Inr n))"

text \<open>The order of prefixes: every IPv4 prefix before every IPv6 prefix, then by network.\<close>

instantiation ip_prefix :: (linorder, linorder) linorder
begin

fun less_eq_ip_prefix :: "('a, 'b) ip_prefix \<Rightarrow> ('a, 'b) ip_prefix \<Rightarrow> bool" where
  "less_eq_ip_prefix (V4 p1) (V4 p2) = (p1 \<le> p2)"
| "less_eq_ip_prefix (V6 p1) (V6 p2) = (p1 \<le> p2)"
| "less_eq_ip_prefix (V4 _) (V6 _) = True"
| "less_eq_ip_prefix (V6 _) (V4 _) = False"

definition less_ip_prefix :: "('a, 'b) ip_prefix \<Rightarrow> ('a, 'b) ip_prefix \<Rightarrow> bool" where
  "less_ip_prefix p q \<longleftrightarrow> p \<le> q \<and> \<not> q \<le> p"

instance
proof
  fix p q r :: "('a, 'b) ip_prefix"
  show "p < q \<longleftrightarrow> p \<le> q \<and> \<not> q \<le> p" by (rule less_ip_prefix_def)
  show "p \<le> p" by (cases p) auto
  show "p \<le> q \<Longrightarrow> q \<le> r \<Longrightarrow> p \<le> r" by (cases p; cases q; cases r) auto
  show "p \<le> q \<Longrightarrow> q \<le> p \<Longrightarrow> p = q" by (cases p; cases q) auto
  show "p \<le> q \<or> q \<le> p" by (cases p; cases q) auto
qed

end

text \<open>The methods of a prefix that \<open>IpSet\<close> calls.\<close>

record 'p prefix_ops =
  p_contains :: "'p \<Rightarrow> 'p \<Rightarrow> bool"
  p_sibling :: "'p \<Rightarrow> 'p option option"
  p_bifurcate :: "'p \<Rightarrow> ('p \<times> 'p) option option"
  p_last :: "'p \<Rightarrow> 'p"
  p_aggregate :: "'p \<Rightarrow> 'p \<Rightarrow> 'p option"

definition ip_prefix_ops :: "('n4, 'n6) families \<Rightarrow> ('n4, 'n6) ip_prefix prefix_ops" where
  "ip_prefix_ops fam = \<lparr>p_contains = ip_contains fam, p_sibling = ip_get_sibling fam,
     p_bifurcate = ip_bifurcate fam, p_last = ip_get_last_subprefix fam, p_aggregate = ip_try_aggregate fam\<rparr>"

section \<open>The documented behaviour of the network types\<close>

text \<open>The two families as one function of the width; the IPv4 code has the literal constants of
  width 32, the IPv6 code those of width 128.\<close>

definition sibling_at :: "('n, 'a::len) ipnet_ops \<Rightarrow> 'n \<Rightarrow> 'n option option" where
  "sibling_at ops p =
     (if net_prefix_len ops p = 0 then Some None
      else if net_prefix_len ops p \<le> LENGTH('a) then
        map_option Some (net_new ops (net_addr ops p XOR push_bit (LENGTH('a) - net_prefix_len ops p) 1)
                          (net_prefix_len ops p))
      else None)"

definition aggregate_at :: "('n, 'a::len) ipnet_ops \<Rightarrow> 'n \<Rightarrow> 'n \<Rightarrow> 'n option" where
  "aggregate_at ops p1 p2 =
     (if net_contains ops p1 p2 then Some p1
      else if net_contains ops p2 p1 then Some p2
      else case (net_supernet ops p1, net_supernet ops p2) of
             (Some super1, Some super2) \<Rightarrow> if super1 = super2 then Some super1 else None
           | _ \<Rightarrow> None)"

lemma family_eqs [net_laws]:
  "ipv4_get_sibling ops = sibling_at ops" "ipv6_get_sibling ops' = sibling_at ops'"
  "ipv4_try_aggregate ops = aggregate_at ops" "ipv6_try_aggregate ops' = aggregate_at ops'"
  by (simp_all add: fun_eq_iff ipv4_get_sibling_def ipv6_get_sibling_def sibling_at_def Let_def
      ipv4_try_aggregate_def ipv6_try_aggregate_def aggregate_at_def ipv4_contains_def ipv6_contains_def)

lemma block_no_bound:
  fixes ops :: "('n, 'a::len) ipnet_ops"
  assumes "net_prefix_len ops n \<le> LENGTH('a)"
  shows "block_no ops n < 2 ^ net_prefix_len ops n"
proof -
  have "unat (net_addr ops n) < 2 ^ net_prefix_len ops n * 2 ^ host_bits ops n"
    using unsigned_less [of "net_addr ops n", where ?'a = nat] assms
    by (simp add: host_bits_def power_add [symmetric])
  then show ?thesis unfolding block_no_def by (simp add: less_mult_imp_div_less)
qed

text \<open>What both network packages of the program (\<open>ipnet\<close> and \<open>ipnetwork\<close>) document.\<close>

locale net_api =
  fixes ops :: "('n, 'a::len) ipnet_ops"
  assumes prefix_len_le: "net_prefix_len ops n \<le> LENGTH('a)"
    and net_eqI: "net_addr ops n = net_addr ops m \<Longrightarrow> net_prefix_len ops n = net_prefix_len ops m \<Longrightarrow> n = m"
    and network_eq: "unat (net_network ops n) = block_no ops n * 2 ^ host_bits ops n"
    and broadcast_eq: "unat (net_broadcast ops n) = block_no ops n * 2 ^ host_bits ops n + (2 ^ host_bits ops n - 1)"
    and new_eq: "l \<le> LENGTH('a) \<Longrightarrow> \<exists>n. net_new ops a l = Some n \<and> net_addr ops n = a \<and> net_prefix_len ops n = l"
    and new_too_long: "LENGTH('a) < l \<Longrightarrow> net_new ops a l = None"
begin

abbreviation h :: "'n \<Rightarrow> nat" where
  "h \<equiv> host_bits ops"

abbreviation q :: "'n \<Rightarrow> nat" where
  "q \<equiv> block_no ops"

lemma covers_interval: "covers ops n = {unat (net_network ops n) .. unat (net_broadcast ops n)}"
proof -
  have "covers ops n = {q n * 2 ^ h n ..< q n * 2 ^ h n + 2 ^ h n}"
    by (simp add: covers_def dy_interval add.commute)
  also have "\<dots> = {q n * 2 ^ h n .. q n * 2 ^ h n + (2 ^ h n - 1)}"
    by (rule interval_pred) simp
  finally show ?thesis by (simp add: network_eq broadcast_eq)
qed

lemma network_le_broadcast: "unat (net_network ops n) \<le> unat (net_broadcast ops n)"
  unfolding network_eq broadcast_eq by (rule le_add1)

lemma canonical_iff: "canonical ops n \<longleftrightarrow> unat (net_addr ops n) = q n * 2 ^ h n"
  by (simp add: canonical_def word_unat_eq_iff network_eq)

lemma host_bits_inj: "h n = h m \<Longrightarrow> net_prefix_len ops n = net_prefix_len ops m"
  using prefix_len_le [of n] prefix_len_le [of m] by (simp add: host_bits_def)

lemma canonical_eqI:
  assumes "canonical ops n" "canonical ops m" "h n = h m" "q n = q m"
  shows "n = m"
proof (rule net_eqI)
  show "net_addr ops n = net_addr ops m"
    using assms unfolding canonical_iff word_unat_eq_iff by simp
qed (rule host_bits_inj [OF assms(3)])

lemma covers_inj: "canonical ops n \<Longrightarrow> canonical ops m \<Longrightarrow> covers ops n = covers ops m \<Longrightarrow> n = m"
  by (simp add: covers_def canonical_eqI)

text \<open>A network made from the start of a block.\<close>

lemma new_block:
  assumes "l \<le> LENGTH('a)" "unat a = r * 2 ^ (LENGTH('a) - l)"
  shows "\<exists>n. net_new ops a l = Some n \<and> canonical ops n \<and> h n = LENGTH('a) - l \<and> q n = r"
proof -
  obtain n where n: "net_new ops a l = Some n" "net_addr ops n = a" "net_prefix_len ops n = l"
    using new_eq [OF assms(1)] by blast
  then have "h n = LENGTH('a) - l" "q n = r"
    by (simp_all add: host_bits_def block_no_def assms(2))
  with n assms(2) show ?thesis by (simp add: canonical_iff)
qed

end

locale ipnet_api = net_api ops
  for ops :: "('n::linorder, 'a::len) ipnet_ops" +
  assumes from_addr_eq: "net_addr ops (net_from_addr ops a) = a" "net_prefix_len ops (net_from_addr ops a) = LENGTH('a)"
    and contains_eq: "net_contains ops n m \<longleftrightarrow>
      net_network ops n \<le> net_network ops m \<and> net_broadcast ops m \<le> net_broadcast ops n"
    and supernet_none: "net_supernet ops n = None \<longleftrightarrow> net_prefix_len ops n = 0"
    and supernet_eq: "net_supernet ops n = Some s \<Longrightarrow> Suc (net_prefix_len ops s) = net_prefix_len ops n
      \<and> unat (net_addr ops s) = block_no ops n div 2 * 2 ^ Suc (host_bits ops n)"
    and trunc_eq: "net_addr ops (net_trunc ops n) = net_network ops n"
      "net_prefix_len ops (net_trunc ops n) = net_prefix_len ops n"
    and net_less_eq: "n \<le> m \<longleftrightarrow> net_addr ops n < net_addr ops m
      \<or> net_addr ops n = net_addr ops m \<and> net_prefix_len ops n \<le> net_prefix_len ops m"
begin

lemma contains_covers: "net_contains ops n m \<longleftrightarrow> covers ops m \<subseteq> covers ops n"
  unfolding contains_eq covers_interval word_le_nat_alt
  using network_le_broadcast [of m] by (simp only: atLeastatMost_subset_iff) blast

lemma net_order_iff:
  assumes "canonical ops n" "canonical ops m"
  shows "n \<le> m \<longleftrightarrow> q n * 2 ^ h n < q m * 2 ^ h m \<or> q n * 2 ^ h n = q m * 2 ^ h m \<and> h m \<le> h n"
proof -
  have "net_prefix_len ops n \<le> net_prefix_len ops m \<longleftrightarrow> h m \<le> h n"
    using prefix_len_le [of n] prefix_len_le [of m] unfolding host_bits_def by linarith
  then show ?thesis
    using assms unfolding canonical_iff net_less_eq word_less_nat_alt word_unat_eq_iff by simp
qed

lemma start_in_covers: "q n * 2 ^ h n \<in> covers ops n"
  by (simp add: covers_def)

lemma covers_start_le: "covers ops m \<subseteq> covers ops n \<Longrightarrow> q n * 2 ^ h n \<le> q m * 2 ^ h m"
  using start_in_covers [of m] by (auto simp: covers_interval network_eq)

lemma contained_after:
  assumes "canonical ops n" "canonical ops m" "covers ops m \<subseteq> covers ops n"
  shows "n \<le> m"
  using assms covers_start_le [OF assms(3)] unfolding net_order_iff [OF assms(1,2)]
  by (auto simp: covers_def dy_subset_iff)

lemma between_covers:
  assumes "canonical ops c" "canonical ops r" "canonical ops p"
    and "covers ops p \<subseteq> covers ops c" "c \<le> r" "r \<le> p"
  shows "covers ops r \<inter> covers ops c \<noteq> {}"
proof -
  have "q c * 2 ^ h c \<le> q r * 2 ^ h r" "q r * 2 ^ h r \<le> q p * 2 ^ h p"
    using assms by (auto simp: net_order_iff)
  moreover have "q p * 2 ^ h p \<in> covers ops c" using assms(4) start_in_covers by blast
  ultimately have "q r * 2 ^ h r \<in> covers ops c" by (auto simp: covers_interval network_eq)
  then show ?thesis using start_in_covers by blast
qed

lemma last_subprefix_bound:
  assumes "canonical ops p" "canonical ops m" "covers ops m \<subseteq> covers ops p"
  shows "m \<le> net_from_addr ops (net_broadcast ops p)"
proof -
  have "unat (net_addr ops m) \<in> covers ops p"
    using assms start_in_covers [of m] by (auto simp: canonical_iff)
  then have "net_addr ops m \<le> net_broadcast ops p"
    by (auto simp: covers_interval word_le_nat_alt)
  then show ?thesis
    using prefix_len_le [of m] by (auto simp: net_less_eq from_addr_eq le_less)
qed

lemma sibling_spec:
  assumes "canonical ops p"
  shows "if net_prefix_len ops p = 0 then sibling_at ops p = Some None
    else \<exists>s. sibling_at ops p = Some (Some s) \<and> canonical ops s \<and> h s = h p \<and> q s = sib (q p)"
proof (cases "net_prefix_len ops p = 0")
  case False
  let ?l = "net_prefix_len ops p"
  have l: "?l \<le> LENGTH('a)" by (rule prefix_len_le)
  have small: "h p < LENGTH('a)" using False l by (simp add: host_bits_def)
  have "unat (net_addr ops p XOR push_bit (h p) 1) = push_bit (h p) (q p) XOR push_bit (h p) 1"
    using assms small unfolding canonical_iff
    by (simp add: unsigned_xor_eq push_bit_of_1 push_bit_eq_mult)
  also have "\<dots> = push_bit (h p) (q p XOR 1)" by (simp add: push_bit_xor)
  also have "q p XOR 1 = sib (q p)" by (simp add: xor_Suc_0_eq sib_def)
  finally have "unat (net_addr ops p XOR push_bit (h p) 1) = sib (q p) * 2 ^ (LENGTH('a) - ?l)"
    by (simp add: push_bit_eq_mult host_bits_def)
  from new_block [OF l this] False l show ?thesis
    by (auto simp: sibling_at_def host_bits_def)
qed (simp add: sibling_at_def)

lemma supernet_spec:
  assumes "net_prefix_len ops p \<noteq> 0"
  shows "\<exists>s. net_supernet ops p = Some s \<and> canonical ops s \<and> h s = Suc (h p) \<and> q s = q p div 2"
proof -
  obtain s where s: "net_supernet ops p = Some s"
    using assms supernet_none [of p] by (cases "net_supernet ops p") auto
  have hs: "h s = Suc (h p)"
    using conjunct1 [OF supernet_eq [OF s]] prefix_len_le [of p] unfolding host_bits_def by linarith
  have a: "unat (net_addr ops s) = q p div 2 * 2 ^ h s" using supernet_eq [OF s] hs by simp
  then have "q s = q p div 2" by (simp add: block_no_def [of ops s])
  with s hs a show ?thesis by (simp add: canonical_iff)
qed

lemma sib_or_same: "q' div 2 = r div 2 \<Longrightarrow> q' = r \<or> q' = sib r" for q' r :: nat
  by (auto simp: sib_def elim!: evenE oddE)

text \<open>Aggregation succeeds exactly when some prefix covers the same addresses as both together.\<close>

lemma aggregate_cases:
  assumes "aggregate_at ops p r = Some a"
  obtains (left) "covers ops r \<subseteq> covers ops p" "a = p" | (right) "covers ops p \<subseteq> covers ops r" "a = r"
    | (super) "\<not> covers ops r \<subseteq> covers ops p" "net_supernet ops p = Some a" "net_supernet ops r = Some a"
proof (cases "net_contains ops p r")
  case True
  with assms show ?thesis by (intro left) (simp_all add: aggregate_at_def contains_covers)
next
  case np: False
  show ?thesis
  proof (cases "net_contains ops r p")
    case True
    with np assms show ?thesis by (intro right) (simp_all add: aggregate_at_def contains_covers)
  next
    case False
    with np assms have "net_supernet ops p = Some a" "net_supernet ops r = Some a"
      by (simp_all add: aggregate_at_def split: option.splits if_splits)
    with np show ?thesis by (intro super) (simp_all add: contains_covers)
  qed
qed

lemma aggregate_sound:
  assumes "canonical ops p" "canonical ops r" "aggregate_at ops p r = Some a"
  shows "canonical ops a \<and> covers ops a = covers ops p \<union> covers ops r"
  using assms(3)
proof (cases rule: aggregate_cases)
  case super
  have "net_prefix_len ops p \<noteq> 0" "net_prefix_len ops r \<noteq> 0"
    using super supernet_none [of p] supernet_none [of r] by auto
  with supernet_spec [of p] supernet_spec [of r] super
  have a: "canonical ops a" "h a = Suc (h p)" "q a = q p div 2" "h r = h p" "q r div 2 = q p div 2"
    by auto
  from sib_or_same [OF a(5)] super(1) a(4) have "q r = sib (q p)" by (auto simp: covers_def)
  with a dy_union_sib [of "h p" "q p"] show ?thesis by (simp add: covers_def)
qed (use assms in auto)

lemma aggregate_sibling:
  assumes "canonical ops p" "sibling_at ops p = Some (Some s)"
  shows "\<exists>a. aggregate_at ops p s = Some a"
proof -
  from sibling_spec [OF assms(1)] assms(2)
  have l: "net_prefix_len ops p \<noteq> 0" and s: "canonical ops s" "h s = h p" "q s = sib (q p)"
    by (simp_all split: if_splits)
  have ls: "net_prefix_len ops s \<noteq> 0" using l host_bits_inj [OF s(2)] by simp
  obtain a where a: "net_supernet ops p = Some a" "canonical ops a" "h a = Suc (h p)" "q a = q p div 2"
    using supernet_spec [OF l] by blast
  obtain b where b: "net_supernet ops s = Some b" "canonical ops b" "h b = Suc (h s)" "q b = q s div 2"
    using supernet_spec [OF ls] by blast
  have "a = b" by (rule canonical_eqI [OF a(2) b(2)]) (simp_all add: a b s)
  with a b show ?thesis by (simp add: aggregate_at_def)
qed

lemma sibling_none_top: "sibling_at ops p = Some None \<Longrightarrow> canonical ops p \<Longrightarrow> \<not> covers ops p \<subset> covers ops r"
  using sibling_spec [of p] prefix_len_le [of r]
  by (auto simp: covers_def dy_subset_iff host_bits_def psubset_eq split: if_splits)

lemma sibling_facts:
  assumes "canonical ops p" "sibling_at ops p = Some (Some s)"
  shows "canonical ops s" "h s = h p" "q s = sib (q p)" "sibling_at ops s = Some (Some p)"
proof -
  from sibling_spec [OF assms(1)] assms(2)
  have s: "canonical ops s" "h s = h p" "q s = sib (q p)" and l: "net_prefix_len ops p \<noteq> 0"
    by (simp_all split: if_splits)
  then show "canonical ops s" "h s = h p" "q s = sib (q p)" by simp_all
  have "net_prefix_len ops s \<noteq> 0" using l host_bits_inj [OF s(2)] by simp
  with sibling_spec [OF s(1)] obtain t
    where t: "sibling_at ops s = Some (Some t)" "canonical ops t" "h t = h p" "q t = q p"
    using s by auto
  from canonical_eqI [OF t(2) assms(1) t(3,4)] t(1) show "sibling_at ops s = Some (Some p)" by simp
qed

end

section \<open>Halving a prefix\<close>

lemma block_or_bit:
  fixes a :: "'a::len word"
  assumes "unat a = q * 2 ^ Suc k" "k < LENGTH('a)"
  shows "unat (a OR 2 ^ k) = Suc (2 * q) * 2 ^ k"
proof -
  have "unat (a OR 2 ^ k) = push_bit k (2 * q) OR push_bit k 1"
    using assms by (simp add: unsigned_or_eq push_bit_eq_mult algebra_simps)
  also have "\<dots> = push_bit k (2 * q OR 1)" by (simp add: push_bit_or)
  also have "2 * q OR 1 = Suc (2 * q)" by (simp add: or_Suc_0_eq)
  finally show ?thesis by (simp add: push_bit_eq_mult)
qed

lemma ipv4_bifurcate_halves:
  assumes "ipnet_api ops" "canonical ops p" "net_prefix_len ops p \<le> 31"
  shows "\<exists>e d. ipv4_bifurcate ops p = Some (Some (e, d)) \<and> canonical ops e \<and> canonical ops d
    \<and> host_bits ops e = host_bits ops p - 1 \<and> host_bits ops d = host_bits ops p - 1
    \<and> block_no ops e = 2 * block_no ops p \<and> block_no ops d = Suc (2 * block_no ops p)"
proof -
  let ?n = "net_prefix_len ops p" and ?a = "net_addr ops p" and ?k = "31 - net_prefix_len ops p"
  have len: "?n + 1 \<le> LENGTH(32)" and k: "?k < LENGTH(32)" and kk: "LENGTH(32) - (?n + 1) = ?k"
    using assms(3) by auto
  have h: "host_bits ops p = Suc ?k" using assms(3) by (simp add: host_bits_def)
  have a: "unat ?a = block_no ops p * 2 ^ Suc ?k"
    using net_api.canonical_iff [OF ipnet_api.axioms(1) [OF assms(1)]] assms(2) h by metis
  have flip: "drop_bit ?n (0x80000000 :: 32 word) = 2 ^ ?k"
  proof -
    have "drop_bit ?n (0x80000000 :: 32 word) = drop_bit ?n (push_bit ?n (2 ^ ?k))"
      using assms(3) by (simp add: push_bit_eq_mult power_add [symmetric])
    also have "\<dots> = 2 ^ ?k"
      using assms(3) by (intro word_unat_eq_iff [THEN iffD2])
        (simp add: unat_drop_bit push_bit_eq_mult power_add [symmetric] power_diff)
    finally show ?thesis .
  qed
  have e: "unat ?a = 2 * block_no ops p * 2 ^ (LENGTH(32) - (?n + 1))" using a kk by simp
  have d: "unat (?a OR 2 ^ ?k) = Suc (2 * block_no ops p) * 2 ^ (LENGTH(32) - (?n + 1))"
    using block_or_bit [OF a k] kk by simp
  obtain x y where "net_new ops ?a (?n + 1) = Some x" "canonical ops x" "host_bits ops x = ?k" "block_no ops x = 2 * block_no ops p"
    "net_new ops (?a OR 2 ^ ?k) (?n + 1) = Some y" "canonical ops y" "host_bits ops y = ?k" "block_no ops y = Suc (2 * block_no ops p)"
    using net_api.new_block [OF ipnet_api.axioms(1) [OF assms(1)] len e]
      net_api.new_block [OF ipnet_api.axioms(1) [OF assms(1)] len d] kk by auto
  with assms(3) h show ?thesis by (simp add: ipv4_bifurcate_def Let_def flip)
qed

text \<open>The IPv6 code shifts the constant \<open>2 ^ 63\<close> instead of the top bit \<open>2 ^ 127\<close>, so the bit it sets is a
  host bit of the half and both results describe the lower half.\<close>

lemma ipv6_bifurcate_same_half:
  assumes "ipnet_api ops" "canonical ops p" "net_prefix_len ops p \<le> 127"
  shows "\<exists>e d. ipv6_bifurcate ops p = Some (Some (e, d))
    \<and> covers ops e = dy (host_bits ops p - 1) (2 * block_no ops p) \<and> covers ops d = covers ops e"
proof -
  let ?n = "net_prefix_len ops p" and ?a = "net_addr ops p"
  let ?x = "drop_bit ?n (0x8000000000000000 :: 128 word)"
  have len: "?n + 1 \<le> LENGTH(128)" using assms(3) by simp
  obtain e where e: "net_new ops ?a (?n + 1) = Some e" "net_addr ops e = ?a" "net_prefix_len ops e = ?n + 1"
    using net_api.new_eq [OF ipnet_api.axioms(1) [OF assms(1)] len] by blast
  obtain d where d: "net_new ops (?a OR ?x) (?n + 1) = Some d" "net_addr ops d = ?a OR ?x" "net_prefix_len ops d = ?n + 1"
    using net_api.new_eq [OF ipnet_api.axioms(1) [OF assms(1)] len] by blast
  have h: "host_bits ops e = 127 - ?n" "host_bits ops d = 127 - ?n" "host_bits ops p = Suc (127 - ?n)"
    using e d assms(3) by (simp_all add: host_bits_def)
  have "drop_bit (127 - ?n) ?x = drop_bit 127 (0x8000000000000000 :: 128 word)"
    using assms(3) by simp
  also have "\<dots> = 0" by simp
  finally have "drop_bit (127 - ?n) (?a OR ?x) = drop_bit (127 - ?n) ?a" by (simp add: drop_bit_or)
  then have "unat (?a OR ?x) div 2 ^ (127 - ?n) = unat ?a div 2 ^ (127 - ?n)"
    by (simp only: drop_bit_eq_iff)
  then have same: "block_no ops d = block_no ops e"
    unfolding block_no_def d(2) e(2) h by simp
  have "unat ?a = block_no ops p * 2 ^ Suc (127 - ?n)"
    using net_api.canonical_iff [OF ipnet_api.axioms(1) [OF assms(1)]] assms(2) h(3) by metis
  then have "block_no ops e = 2 * block_no ops p"
    using e(2) h(1) by (simp add: block_no_def [of ops e])
  with same h e d assms(3) show ?thesis
    by (simp add: ipv6_bifurcate_def Let_def covers_def)
qed

section \<open>A reference for the network types\<close>

typedef (overloaded) ('a::len) ref_net = "{(a :: 'a word, l :: nat). l \<le> LENGTH('a)}"
  by (rule exI [of _ "(0, 0)"]) simp

definition mk_net :: "'a::len word \<Rightarrow> nat \<Rightarrow> 'a ref_net" where
  "mk_net a l = Abs_ref_net (a, min l LENGTH('a))"

definition ref_addr :: "'a::len ref_net \<Rightarrow> 'a word" where
  "ref_addr n = fst (Rep_ref_net n)"

definition ref_len :: "'a::len ref_net \<Rightarrow> nat" where
  "ref_len n = snd (Rep_ref_net n)"

lemma mk_net_simps [simp]:
  fixes a :: "'a::len word"
  shows "ref_addr (mk_net a l) = a" "ref_len (mk_net a l) = min l LENGTH('a)"
  by (simp_all add: mk_net_def ref_addr_def ref_len_def Abs_ref_net_inverse)

lemma ref_len_le: "ref_len (n :: 'a::len ref_net) \<le> LENGTH('a)"
  using Rep_ref_net [of n] by (auto simp: ref_len_def)

lemma ref_net_eq_iff: "n = m \<longleftrightarrow> ref_addr n = ref_addr m \<and> ref_len n = ref_len m"
  by (metis Rep_ref_net_inject prod_eq_iff ref_addr_def ref_len_def)

lemma mk_net_eq_iff [simp]:
  fixes a b :: "'a::len word"
  shows "mk_net a l = mk_net b k \<longleftrightarrow> a = b \<and> min l LENGTH('a) = min k LENGTH('a)"
  by (simp add: ref_net_eq_iff)

instantiation ref_net :: (len) linorder
begin

definition less_eq_ref_net :: "'a ref_net \<Rightarrow> 'a ref_net \<Rightarrow> bool" where
  "less_eq_ref_net n m \<longleftrightarrow> ref_addr n < ref_addr m \<or> ref_addr n = ref_addr m \<and> ref_len n \<le> ref_len m"

definition less_ref_net :: "'a ref_net \<Rightarrow> 'a ref_net \<Rightarrow> bool" where
  "less_ref_net n m \<longleftrightarrow> n \<le> m \<and> \<not> m \<le> n"

instance
  by standard (auto simp: less_eq_ref_net_def less_ref_net_def ref_net_eq_iff)

end

definition ref_host :: "'a::len ref_net \<Rightarrow> nat" where
  "ref_host n = LENGTH('a) - ref_len n"

definition ref_block :: "'a::len ref_net \<Rightarrow> nat" where
  "ref_block n = unat (ref_addr n) div 2 ^ ref_host n"

definition ref_first :: "'a::len ref_net \<Rightarrow> 'a word" where
  "ref_first n = of_nat (ref_block n * 2 ^ ref_host n)"

definition ref_last :: "'a::len ref_net \<Rightarrow> 'a word" where
  "ref_last n = of_nat (ref_block n * 2 ^ ref_host n + (2 ^ ref_host n - 1))"

definition ref_net_ops :: "('a ref_net, 'a::len) ipnet_ops" where
  "ref_net_ops = \<lparr>
     net_addr = ref_addr, net_prefix_len = ref_len, net_network = ref_first, net_broadcast = ref_last,
     net_new = (\<lambda>a l. if l \<le> LENGTH('a) then Some (mk_net a l) else None),
     net_from_addr = (\<lambda>a. mk_net a LENGTH('a)),
     net_contains = (\<lambda>n m. ref_first n \<le> ref_first m \<and> ref_last m \<le> ref_last n),
     net_supernet = (\<lambda>n. if ref_len n = 0 then None
        else Some (mk_net (of_nat (ref_block n div 2 * 2 ^ Suc (ref_host n))) (ref_len n - 1))),
     net_trunc = (\<lambda>n. mk_net (ref_first n) (ref_len n)),
     net_parse = (\<lambda>s. Inl ''unsupported''), net_show = (\<lambda>n. [])\<rparr>"

lemma unat_of_nat_small: "x < 2 ^ LENGTH('a) \<Longrightarrow> unat (of_nat x :: 'a::len word) = x"
  by (simp add: unsigned_of_nat take_bit_nat_eq_self)

lemma ref_last_bound:
  fixes n :: "'a::len ref_net"
  shows "ref_block n * 2 ^ ref_host n + (2 ^ ref_host n - 1) < 2 ^ LENGTH('a)"
proof -
  have "unat (ref_addr n) < 2 ^ ref_len n * 2 ^ ref_host n"
    using unsigned_less [of "ref_addr n"] ref_len_le [of n]
    by (simp add: ref_host_def power_add [symmetric])
  then have "ref_block n < 2 ^ ref_len n" by (simp add: ref_block_def less_mult_imp_div_less)
  then have "Suc (ref_block n) * 2 ^ ref_host n \<le> 2 ^ ref_len n * 2 ^ ref_host n"
    by (intro mult_le_mono) auto
  also have "\<dots> = 2 ^ LENGTH('a)" using ref_len_le [of n] by (simp add: ref_host_def power_add [symmetric])
  finally have "ref_block n * 2 ^ ref_host n + 2 ^ ref_host n \<le> 2 ^ LENGTH('a)" by (simp add: add.commute)
  moreover have "(0 :: nat) < 2 ^ ref_host n" by simp
  ultimately show ?thesis by linarith
qed

lemma ref_ops_simps [simp]:
  "net_addr ref_net_ops = ref_addr" "net_prefix_len ref_net_ops = ref_len"
  "net_network ref_net_ops = ref_first" "net_broadcast ref_net_ops = ref_last"
  "host_bits ref_net_ops n = ref_host n" "block_no ref_net_ops n = ref_block n"
  by (simp_all add: ref_net_ops_def host_bits_def block_no_def ref_host_def ref_block_def)

lemma unat_ref_first: "unat (ref_first n) = ref_block n * 2 ^ ref_host n"
  unfolding ref_first_def by (rule unat_of_nat_small) (use ref_last_bound [of n] in linarith)

lemma unat_ref_last: "unat (ref_last n) = ref_block n * 2 ^ ref_host n + (2 ^ ref_host n - 1)"
  unfolding ref_last_def by (rule unat_of_nat_small [OF ref_last_bound])

lemma supernet_start_small: "q div 2 * 2 ^ Suc k \<le> q * 2 ^ k" for q k :: nat
proof -
  have "q div 2 * 2 ^ Suc k = (q div 2 * 2) * 2 ^ k" by simp
  also have "\<dots> \<le> q * 2 ^ k" by (intro mult_le_mono1) simp
  finally show ?thesis .
qed

interpretation ref_nets: ipnet_api "ref_net_ops :: ('a ref_net, 'a::len) ipnet_ops"
proof
  fix n m s :: "'a ref_net" and l :: nat and a :: "'a word"
  show "net_prefix_len ref_net_ops n \<le> LENGTH('a)" by (simp add: ref_len_le)
  show "unat (net_network ref_net_ops n) = block_no ref_net_ops n * 2 ^ host_bits ref_net_ops n"
    by (simp add: unat_ref_first)
  show "unat (net_broadcast ref_net_ops n)
      = block_no ref_net_ops n * 2 ^ host_bits ref_net_ops n + (2 ^ host_bits ref_net_ops n - 1)"
    by (simp add: unat_ref_last)
  show "net_addr ref_net_ops (net_trunc ref_net_ops n) = net_network ref_net_ops n"
    "net_prefix_len ref_net_ops (net_trunc ref_net_ops n) = net_prefix_len ref_net_ops n"
    using ref_len_le [of n] by (simp_all add: ref_net_ops_def)
  show "\<exists>n. net_new ref_net_ops a l = Some n \<and> net_addr ref_net_ops n = a \<and> net_prefix_len ref_net_ops n = l"
    if "l \<le> LENGTH('a)"
    using that by (intro exI [of _ "mk_net a l"]) (simp add: ref_net_ops_def)
  show "net_supernet ref_net_ops n = Some s \<Longrightarrow> Suc (net_prefix_len ref_net_ops s) = net_prefix_len ref_net_ops n
      \<and> unat (net_addr ref_net_ops s) = block_no ref_net_ops n div 2 * 2 ^ Suc (host_bits ref_net_ops n)"
  proof -
    assume s: "net_supernet ref_net_ops n = Some s"
    then have "s = mk_net (of_nat (ref_block n div 2 * 2 ^ Suc (ref_host n))) (ref_len n - 1)" "ref_len n \<noteq> 0"
      by (simp_all add: ref_net_ops_def split: if_splits)
    moreover have "ref_block n div 2 * 2 ^ Suc (ref_host n) < 2 ^ LENGTH('a)"
      using supernet_start_small [of "ref_block n" "ref_host n"] ref_last_bound [of n] by linarith
    ultimately show ?thesis
      using ref_len_le [of n] by (simp add: unat_of_nat_small del: power_Suc of_nat_mult)
  qed
qed (auto simp: ref_net_ops_def ref_net_eq_iff less_eq_ref_net_def)

end
