(* ===== verification/Ip_Set.thy ===== *)
theory Ip_Set
  imports Ip_Prefix "HOL-Library.FSet"
begin

text \<open>
  Sets of addresses kept as sets of prefixes (\<open>IpSet\<close> in \<open>src/crates/network/src/ip/ipset.rs\<close>).

  The \<open>BTreeSet\<close> is a finite set of an ordered type. The two \<open>while\<close> loops of \<open>add\<close> remove an element
  in every round and are recursive functions; the loop of \<open>remove\<close> halves a prefix and is a partial
  function. A panic is \<open>None\<close>. The operations take the methods of \<open>IpPrefix\<close> they call as a record,
  and the locale \<open>prefix_algebra\<close> is what they rely on: prefixes are nested or disjoint, a container
  sorts before its parts, a prefix and its sibling make the next larger prefix.
\<close>

section \<open>Definitions\<close>

definition get_containing_prefix :: "'p::linorder prefix_ops \<Rightarrow> 'p fset \<Rightarrow> 'p \<Rightarrow> 'p option" where
  "get_containing_prefix P S p =
     (let upto = ffilter (\<lambda>q. q \<le> p) S in
      if upto = {||} then None
      else let included = fMax upto in if p_contains P included p then Some included else None)"

definition contains_prefix :: "'p::linorder prefix_ops \<Rightarrow> 'p fset \<Rightarrow> 'p \<Rightarrow> bool" where
  "contains_prefix P S p \<longleftrightarrow> get_containing_prefix P S p \<noteq> None"

text \<open>The first prefix of the set inside \<open>p\<close>, searched between \<open>p\<close> and its last subprefix.\<close>

definition find_subprefix :: "'p::linorder prefix_ops \<Rightarrow> 'p \<Rightarrow> 'p fset \<Rightarrow> 'p option" where
  "find_subprefix P p S =
     (let found = ffilter (\<lambda>q. p \<le> q \<and> q \<le> p_last P p \<and> p_contains P p q) S in
      if found = {||} then None else Some (fMin found))"

lemma find_subprefix_in: "find_subprefix P p S = Some q \<Longrightarrow> q |\<in>| S"
  using fMin_in [of "ffilter (\<lambda>q. p \<le> q \<and> q \<le> p_last P p \<and> p_contains P p q) S"]
  by (auto simp: find_subprefix_def Let_def split: if_splits)

lemma ffilter_empty_iff: "ffilter Q S = {||} \<longleftrightarrow> (\<forall>q. q |\<in>| S \<longrightarrow> \<not> Q q)"
proof
  assume "ffilter Q S = {||}"
  then show "\<forall>q. q |\<in>| S \<longrightarrow> \<not> Q q" by (metis ffmember_filter fempty_iff)
qed auto

lemma fcard_pred_less: "q |\<in>| S \<Longrightarrow> fcard S - Suc 0 < fcard S"
  by (rule diff_less) (auto simp: fcard.rep_eq card_gt_0_iff)

function drop_subprefixes :: "'p::linorder prefix_ops \<Rightarrow> 'p \<Rightarrow> 'p fset \<Rightarrow> 'p fset" where
  "drop_subprefixes P p S =
     (case find_subprefix P p S of None \<Rightarrow> S | Some q \<Rightarrow> drop_subprefixes P p (S |-| {|q|}))"
  by pat_completeness auto
termination
  by (relation "measure (\<lambda>(P, p, S). fcard S)")
     (auto dest!: find_subprefix_in dest: fcard_pred_less)

function aggregate_up :: "'p::linorder prefix_ops \<Rightarrow> 'p \<Rightarrow> 'p fset \<Rightarrow> 'p fset option" where
  "aggregate_up P p S =
     (case p_sibling P p of
        None \<Rightarrow> None
      | Some None \<Rightarrow> Some (finsert p S)
      | Some (Some s) \<Rightarrow>
          if s |\<in>| S then
            case p_aggregate P p s of None \<Rightarrow> None | Some a \<Rightarrow> aggregate_up P a (S |-| {|s|})
          else Some (finsert p S))"
  by pat_completeness auto
termination
  by (relation "measure (\<lambda>(P, p, S). fcard S)")
     (auto dest: fcard_pred_less)

text \<open>A \<open>BTreeSet\<close> range whose start is after its end panics.\<close>

definition ipset_add :: "'p::linorder prefix_ops \<Rightarrow> 'p fset \<Rightarrow> 'p \<Rightarrow> 'p fset option" where
  "ipset_add P S p =
     (if contains_prefix P S p then Some S
      else if p_last P p < p then None
      else aggregate_up P p (drop_subprefixes P p S))"

partial_function (option) fragment ::
    "'p::linorder prefix_ops \<Rightarrow> 'p \<Rightarrow> 'p \<Rightarrow> 'p fset \<Rightarrow> 'p fset option" where
  "fragment P p container S =
     (if container = p then Some S
      else case p_bifurcate P container of
             Some (Some (c1, c2)) \<Rightarrow>
               if p_contains P c1 p then fragment P p c1 (finsert c2 S)
               else if p_contains P c2 p then fragment P p c2 (finsert c1 S)
               else None
           | _ \<Rightarrow> None)"

definition ipset_remove :: "'p::linorder prefix_ops \<Rightarrow> 'p fset \<Rightarrow> 'p \<Rightarrow> 'p fset option" where
  "ipset_remove P S p =
     (case get_containing_prefix P S p of
        None \<Rightarrow> Some S
      | Some container \<Rightarrow> fragment P p container (S |-| {|container|}))"

definition get_prefixes :: "'p::linorder fset \<Rightarrow> 'p list" where
  "get_prefixes S = sorted_list_of_fset S"

fun ipset_add_all :: "'p::linorder prefix_ops \<Rightarrow> 'p fset \<Rightarrow> 'p list \<Rightarrow> 'p fset option" where
  "ipset_add_all P S [] = Some S"
| "ipset_add_all P S (p # ps) = (case ipset_add P S p of None \<Rightarrow> None | Some S' \<Rightarrow> ipset_add_all P S' ps)"

definition ipset_from :: "'p::linorder prefix_ops \<Rightarrow> 'p list \<Rightarrow> 'p fset option" where
  "ipset_from P ps = ipset_add_all P {||} ps"

definition aggregate_prefixes :: "'p::linorder prefix_ops \<Rightarrow> 'p list \<Rightarrow> 'p list option" where
  "aggregate_prefixes P ps = map_option get_prefixes (ipset_from P ps)"

declare drop_subprefixes.simps [simp del] aggregate_up.simps [simp del]

text \<open>The address space of a set, and the representation invariant: members disjoint, and no two
  of them mergeable.\<close>

definition space :: "('p \<Rightarrow> 'x set) \<Rightarrow> 'p fset \<Rightarrow> 'x set" where
  "space addrs S = (\<Union>p \<in> fset S. addrs p)"

definition ipset_wf :: "'p::linorder prefix_ops \<Rightarrow> ('p \<Rightarrow> bool) \<Rightarrow> ('p \<Rightarrow> 'x set) \<Rightarrow> 'p fset \<Rightarrow> bool" where
  "ipset_wf P valid addrs S \<longleftrightarrow>
     (\<forall>p \<in> fset S. valid p)
     \<and> (\<forall>p \<in> fset S. \<forall>q \<in> fset S. p \<noteq> q \<longrightarrow> addrs p \<inter> addrs q = {})
     \<and> (\<forall>p \<in> fset S. \<forall>s \<in> fset S. p_sibling P p \<noteq> Some (Some s))"

section \<open>What an IpSet relies on\<close>

locale prefix_algebra =
  fixes P :: "'p::linorder prefix_ops" and valid :: "'p \<Rightarrow> bool" and addrs :: "'p \<Rightarrow> 'x set"
  assumes addrs_nonempty: "valid p \<Longrightarrow> addrs p \<noteq> {}"
    and addrs_finite: "valid p \<Longrightarrow> finite (addrs p)"
    and addrs_inj: "valid p \<Longrightarrow> valid q \<Longrightarrow> addrs p = addrs q \<Longrightarrow> p = q"
    and laminar: "valid p \<Longrightarrow> valid q \<Longrightarrow> addrs p \<inter> addrs q = {} \<or> addrs p \<subseteq> addrs q \<or> addrs q \<subseteq> addrs p"
    and contains_iff: "valid p \<Longrightarrow> valid q \<Longrightarrow> p_contains P p q \<longleftrightarrow> addrs q \<subseteq> addrs p"
    and container_first: "valid p \<Longrightarrow> valid q \<Longrightarrow> addrs q \<subseteq> addrs p \<Longrightarrow> p \<le> q"
    and between_meets: "valid c \<Longrightarrow> valid r \<Longrightarrow> valid p \<Longrightarrow> addrs p \<subseteq> addrs c \<Longrightarrow> c \<le> r \<Longrightarrow> r \<le> p \<Longrightarrow>
      addrs r \<inter> addrs c \<noteq> {}"
    and last_bound: "valid p \<Longrightarrow> valid q \<Longrightarrow> addrs q \<subseteq> addrs p \<Longrightarrow> q \<le> p_last P p"
    and sibling_total: "valid p \<Longrightarrow> p_sibling P p \<noteq> None"
    and sibling_none: "valid p \<Longrightarrow> valid q \<Longrightarrow> p_sibling P p = Some None \<Longrightarrow> \<not> addrs p \<subset> addrs q"
    and sibling_valid: "valid p \<Longrightarrow> p_sibling P p = Some (Some s) \<Longrightarrow> valid s"
    and sibling_sym: "valid p \<Longrightarrow> p_sibling P p = Some (Some s) \<Longrightarrow> p_sibling P s = Some (Some p)"
    and sibling_disjoint: "valid p \<Longrightarrow> p_sibling P p = Some (Some s) \<Longrightarrow> addrs p \<inter> addrs s = {}"
    and sibling_card: "valid p \<Longrightarrow> p_sibling P p = Some (Some s) \<Longrightarrow> card (addrs s) = card (addrs p)"
    and sibling_in_container: "valid p \<Longrightarrow> valid q \<Longrightarrow> p_sibling P p = Some (Some s) \<Longrightarrow> addrs p \<subset> addrs q \<Longrightarrow>
      addrs s \<subseteq> addrs q"
    and aggregate: "valid p \<Longrightarrow> p_sibling P p = Some (Some s) \<Longrightarrow>
      \<exists>a. p_aggregate P p s = Some a \<and> valid a \<and> addrs a = addrs p \<union> addrs s"
begin

abbreviation wf :: "'p fset \<Rightarrow> bool" where
  "wf \<equiv> ipset_wf P valid addrs"

abbreviation U :: "'p fset \<Rightarrow> 'x set" where
  "U \<equiv> space addrs"

lemma wf_valid: "wf S \<Longrightarrow> p |\<in>| S \<Longrightarrow> valid p"
  by (simp add: ipset_wf_def)

lemma wf_disjoint: "wf S \<Longrightarrow> p |\<in>| S \<Longrightarrow> q |\<in>| S \<Longrightarrow> x \<in> addrs p \<Longrightarrow> x \<in> addrs q \<Longrightarrow> p = q"
  unfolding ipset_wf_def by blast

lemma wf_subset: "wf S \<Longrightarrow> T |\<subseteq>| S \<Longrightarrow> wf T"
  unfolding ipset_wf_def by blast

text \<open>A prefix covered by the set lies in one of its members: otherwise a smallest member inside
  the prefix would have its sibling covered, and the member that covers it would contain both.\<close>

lemma covered_single:
  assumes "wf S" and "valid p" and cov: "addrs p \<subseteq> U S"
  shows "\<exists>q. q |\<in>| S \<and> addrs p \<subseteq> addrs q"
proof (rule ccontr)
  assume none: "\<not> ?thesis"
  let ?I = "{t. t |\<in>| S \<and> addrs t \<subset> addrs p}"
  have inside: "q \<in> ?I" if "q |\<in>| S" "addrs q \<inter> addrs p \<noteq> {}" for q
    using laminar [of q p] none that wf_valid [OF assms(1)] assms(2) by blast
  obtain x where "x \<in> addrs p" using addrs_nonempty [OF assms(2)] by blast
  with cov obtain q where "q |\<in>| S" "x \<in> addrs q" by (auto simp: space_def)
  with inside [of q] \<open>x \<in> addrs p\<close> have "?I \<noteq> {}" by blast
  moreover have "finite ?I" by (rule finite_subset [of _ "fset S"]) auto
  moreover define t where "t = arg_min_on (\<lambda>t. card (addrs t)) ?I"
  ultimately have t: "t \<in> ?I" and least: "\<And>q. q \<in> ?I \<Longrightarrow> card (addrs t) \<le> card (addrs q)"
    using arg_min_if_finite(1) [of ?I "\<lambda>t. card (addrs t)"] arg_min_least [of ?I _ "\<lambda>t. card (addrs t)"]
    by auto
  have vt: "valid t" using t wf_valid [OF assms(1)] by blast
  obtain s where s: "p_sibling P t = Some (Some s)"
    using sibling_total [OF vt] sibling_none [OF vt assms(2)] t by fastforce
  have vs: "valid s" and dis: "addrs t \<inter> addrs s = {}" and same: "card (addrs s) = card (addrs t)"
    using sibling_valid [OF vt s] sibling_disjoint [OF vt s] sibling_card [OF vt s] by auto
  have sp: "addrs s \<subseteq> addrs p" using sibling_in_container [OF vt assms(2) s] t by blast
  obtain y where y: "y \<in> addrs s" using addrs_nonempty [OF vs] by blast
  with sp cov obtain q where q: "q |\<in>| S" "y \<in> addrs q" by (auto simp: space_def)
  have qI: "q \<in> ?I" using inside [OF q(1)] q(2) y sp by blast
  have vq: "valid q" using q wf_valid [OF assms(1)] by blast
  have "q \<noteq> s" using assms(1) t q s by (auto simp: ipset_wf_def)
  then have ne: "addrs q \<noteq> addrs s" using addrs_inj [OF vq vs] by blast
  have "\<not> addrs q \<subset> addrs s"
    using psubset_card_mono [OF addrs_finite [OF vs], of "addrs q"] least [OF qI] same by linarith
  then have "addrs s \<subset> addrs q" using laminar [OF vq vs] q(2) y ne by blast
  then have "addrs t \<subseteq> addrs q" using sibling_in_container [OF vs vq sibling_sym [OF vt s]] by blast
  moreover obtain z where "z \<in> addrs t" using addrs_nonempty [OF vt] by blast
  ultimately have "q = t" using wf_disjoint [OF assms(1) q(1)] t by blast
  with q(2) y dis show False by blast
qed

text \<open>The search finds the container, although it looks at one candidate only.\<close>

lemma get_containing_prefix_iff:
  assumes "wf S" and "valid p"
  shows "get_containing_prefix P S p = Some c \<longleftrightarrow> c |\<in>| S \<and> addrs p \<subseteq> addrs c"
proof
  assume g: "get_containing_prefix P S p = Some c"
  let ?upto = "ffilter (\<lambda>q. q \<le> p) S"
  from g have "?upto \<noteq> {||}" "c = fMax ?upto" and con: "p_contains P c p"
    by (auto simp: get_containing_prefix_def Let_def split: if_splits)
  then have "c |\<in>| S" using fMax_in [of ?upto] by auto
  with con show "c |\<in>| S \<and> addrs p \<subseteq> addrs c"
    using contains_iff [OF wf_valid [OF assms(1)] assms(2)] by blast
next
  assume c: "c |\<in>| S \<and> addrs p \<subseteq> addrs c"
  then have vc: "valid c" using wf_valid [OF assms(1)] by blast
  let ?upto = "ffilter (\<lambda>q. q \<le> p) S"
  have cin: "c |\<in>| ?upto" using c container_first [OF vc assms(2)] by auto
  have "fMax ?upto = c"
  proof (rule fMax_eqI)
    fix r assume r: "r |\<in>| ?upto"
    show "r \<le> c"
    proof (rule ccontr)
      assume "\<not> r \<le> c"
      have vr: "valid r" using r wf_valid [OF assms(1)] by auto
      have "addrs r \<inter> addrs c \<noteq> {}"
        by (rule between_meets [OF vc vr assms(2)]) (use c r \<open>\<not> r \<le> c\<close> in auto)
      then obtain x where "x \<in> addrs r" "x \<in> addrs c" by blast
      then have "r = c" using wf_disjoint [OF assms(1), of r c x] r c by auto
      with \<open>\<not> r \<le> c\<close> show False by simp
    qed
  qed (rule cin)
  moreover have "?upto \<noteq> {||}" using cin by auto
  ultimately show "get_containing_prefix P S p = Some c"
    using c contains_iff [OF vc assms(2)] by (simp add: get_containing_prefix_def Let_def)
qed

lemma contains_prefix_iff: "wf S \<Longrightarrow> valid p \<Longrightarrow> contains_prefix P S p \<longleftrightarrow> addrs p \<subseteq> U S"
  using covered_single [of S p] get_containing_prefix_iff [of S p]
  unfolding contains_prefix_def space_def by blast

lemma find_subprefix_None:
  assumes "wf S" and "valid p"
  shows "find_subprefix P p S = None \<longleftrightarrow> (\<forall>q \<in> fset S. \<not> addrs q \<subseteq> addrs p)"
proof -
  have "p \<le> q \<and> q \<le> p_last P p \<and> p_contains P p q \<longleftrightarrow> addrs q \<subseteq> addrs p" if "q |\<in>| S" for q
    using wf_valid [OF assms(1) that] assms(2) contains_iff container_first last_bound by blast
  then show ?thesis unfolding find_subprefix_def Let_def ffilter_empty_iff by (simp split: if_split) blast
qed

lemma find_subprefix_Some:
  assumes "wf S" and "valid p" and "find_subprefix P p S = Some q"
  shows "q |\<in>| S \<and> addrs q \<subseteq> addrs p"
proof -
  let ?found = "ffilter (\<lambda>q. p \<le> q \<and> q \<le> p_last P p \<and> p_contains P p q) S"
  have "?found \<noteq> {||}" "q = fMin ?found"
    using assms(3) by (auto simp: find_subprefix_def Let_def split: if_splits)
  then have "q |\<in>| ?found" using fMin_in by blast
  then show ?thesis using contains_iff [OF assms(2) wf_valid [OF assms(1)]] by auto
qed

lemma drop_subprefixes_eq:
  "wf S \<Longrightarrow> valid p \<Longrightarrow> drop_subprefixes P p S = ffilter (\<lambda>q. \<not> addrs q \<subseteq> addrs p) S"
proof (induction "fcard S" arbitrary: S rule: less_induct)
  case less
  show ?case
  proof (cases "find_subprefix P p S")
    case None
    then have "ffilter (\<lambda>q. \<not> addrs q \<subseteq> addrs p) S = S"
      using find_subprefix_None [OF less.prems] by auto
    with None show ?thesis by (subst drop_subprefixes.simps) simp
  next
    case (Some q)
    have q: "q |\<in>| S" "addrs q \<subseteq> addrs p"
      using find_subprefix_Some [OF less.prems] Some by auto
    have "drop_subprefixes P p S = drop_subprefixes P p (S |-| {|q|})"
      using Some by (subst drop_subprefixes.simps) simp
    also have "\<dots> = ffilter (\<lambda>q. \<not> addrs q \<subseteq> addrs p) (S |-| {|q|})"
      by (rule less.hyps) (use less.prems q wf_subset [of S "S |-| {|q|}"] fcard_pred_less in auto)
    finally show ?thesis using q by auto
  qed
qed

lemma wf_finsert:
  assumes "wf S" and "valid p" and "addrs p \<inter> U S = {}"
    and nosib: "\<And>s. p_sibling P p = Some (Some s) \<Longrightarrow> s |\<notin>| S"
  shows "wf (finsert p S)"
proof -
  have self: "p_sibling P p \<noteq> Some (Some p)"
    using sibling_disjoint [OF assms(2), of p] addrs_nonempty [OF assms(2)] by auto
  have other: "p_sibling P q \<noteq> Some (Some p)" if "q |\<in>| S" for q
    using nosib [of q] sibling_sym [OF wf_valid [OF assms(1) that], of p] that by auto
  have "addrs p \<inter> addrs q = {}" if "q |\<in>| S" for q
    using assms(3) that by (auto simp: space_def)
  then have dis: "\<forall>a \<in> insert p (fset S). \<forall>b \<in> insert p (fset S). a \<noteq> b \<longrightarrow> addrs a \<inter> addrs b = {}"
    using assms(1) unfolding ipset_wf_def by (simp add: Int_commute)
  have "\<forall>a \<in> insert p (fset S). \<forall>b \<in> insert p (fset S). p_sibling P a \<noteq> Some (Some b)"
  proof (intro ballI)
    fix a b assume "a \<in> insert p (fset S)" "b \<in> insert p (fset S)"
    then consider "a = p" "b = p" | "a = p" "b |\<in>| S" | "a |\<in>| S" "b = p" | "a |\<in>| S" "b |\<in>| S" by blast
    then show "p_sibling P a \<noteq> Some (Some b)"
      by cases (use assms(1) nosib [of b] self other [of a] in \<open>auto simp: ipset_wf_def\<close>)
  qed
  with dis show ?thesis
    using assms(1,2) unfolding ipset_wf_def finsert.rep_eq by simp
qed

lemma space_finsert [simp]: "U (finsert p S) = addrs p \<union> U S"
  by (simp add: space_def)

lemma space_remove: "wf S \<Longrightarrow> s |\<in>| S \<Longrightarrow> U (S |-| {|s|}) = U S - addrs s"
  unfolding space_def using wf_disjoint [of S] by auto

lemma aggregate_up_ok:
  assumes "wf S" and "valid p" and "addrs p \<inter> U S = {}"
  shows "\<exists>T. aggregate_up P p S = Some T \<and> wf T \<and> U T = addrs p \<union> U S"
  using assms
proof (induction "fcard S" arbitrary: p S rule: less_induct)
  case less
  obtain r where r: "p_sibling P p = Some r" using sibling_total [OF less.prems(2)] by auto
  show ?case
  proof (cases "\<exists>s. r = Some s \<and> s |\<in>| S")
    case True
    then obtain s where s: "r = Some s" "s |\<in>| S" by blast
    obtain a where a: "p_aggregate P p s = Some a" "valid a" "addrs a = addrs p \<union> addrs s"
      using aggregate [OF less.prems(2)] r s by blast
    have sub: "addrs s \<subseteq> U S" using s by (auto simp: space_def)
    have sp: "U (S |-| {|s|}) = U S - addrs s" by (rule space_remove [OF less.prems(1) s(2)])
    have "\<exists>T. aggregate_up P a (S |-| {|s|}) = Some T \<and> wf T \<and> U T = addrs a \<union> U (S |-| {|s|})"
      by (rule less.hyps) (use less.prems a s sp sub wf_subset [of S "S |-| {|s|}"] fcard_pred_less in auto)
    then show ?thesis
      using r s a sub sp by (subst aggregate_up.simps) auto
  next
    case False
    then have "aggregate_up P p S = Some (finsert p S)"
      using r by (subst aggregate_up.simps) (auto split: option.splits)
    then show ?thesis using wf_finsert [OF less.prems] r False by auto
  qed
qed

lemma ipset_add_ok:
  assumes "wf S" and "valid p"
  shows "\<exists>T. ipset_add P S p = Some T \<and> wf T \<and> U T = U S \<union> addrs p"
proof (cases "addrs p \<subseteq> U S")
  case True
  with assms show ?thesis by (auto simp: ipset_add_def contains_prefix_iff)
next
  case False
  let ?T = "ffilter (\<lambda>q. \<not> addrs q \<subseteq> addrs p) S"
  have "wf ?T" by (rule wf_subset [OF assms(1)]) auto
  moreover have "addrs p \<inter> U ?T = {}"
  proof -
    have "addrs p \<inter> addrs q = {}" if "q |\<in>| S" "\<not> addrs q \<subseteq> addrs p" for q
      using laminar [OF assms(2) wf_valid [OF assms(1) that(1)]] that False by (auto simp: space_def)
    then show ?thesis by (auto simp: space_def)
  qed
  moreover have "U ?T \<union> addrs p = U S \<union> addrs p" by (auto simp: space_def)
  moreover have "\<not> p_last P p < p" using last_bound [OF assms(2) assms(2)] by auto
  ultimately show ?thesis
    using False assms aggregate_up_ok [of ?T p]
    by (auto simp: ipset_add_def contains_prefix_iff drop_subprefixes_eq)
qed

lemma ipset_add_all_ok:
  assumes "wf S" and "\<forall>p \<in> set ps. valid p"
  shows "\<exists>T. ipset_add_all P S ps = Some T \<and> wf T \<and> U T = U S \<union> (\<Union>p \<in> set ps. addrs p)"
  using assms
proof (induction ps arbitrary: S)
  case (Cons p ps)
  then obtain S' where S': "ipset_add P S p = Some S'" "wf S'" "U S' = U S \<union> addrs p"
    using ipset_add_ok [of S p] by auto
  with Cons.IH [of S'] Cons.prems show ?case by auto
qed simp

text \<open>A well-formed set is determined by its address space.\<close>

lemma wf_subset_by_space:
  assumes "wf S" "wf T" "U S = U T" and p: "p |\<in>| S"
  shows "p |\<in>| T"
proof -
  have vp: "valid p" by (rule wf_valid [OF assms(1) p])
  have "addrs p \<subseteq> U T" using p assms(3) by (auto simp: space_def)
  with covered_single [OF assms(2) vp] obtain q where q: "q |\<in>| T" "addrs p \<subseteq> addrs q" by blast
  have vq: "valid q" by (rule wf_valid [OF assms(2) q(1)])
  have "addrs q \<subseteq> U S" using q assms(3) by (auto simp: space_def)
  with covered_single [OF assms(1) vq] obtain r where r: "r |\<in>| S" "addrs q \<subseteq> addrs r" by blast
  obtain x where "x \<in> addrs p" using addrs_nonempty [OF vp] by blast
  then have "r = p" using wf_disjoint [OF assms(1) r(1) p] q r by blast
  with q r have "addrs p = addrs q" by blast
  with addrs_inj [OF vp vq] q(1) show ?thesis by simp
qed

lemma space_determines: "wf S \<Longrightarrow> wf T \<Longrightarrow> U S = U T \<Longrightarrow> S = T"
  using wf_subset_by_space by blast

lemma wf_empty [simp]: "wf {||}" and space_empty [simp]: "U {||} = {}"
  by (simp_all add: ipset_wf_def space_def)

lemma aggregate_prefixes_ok:
  assumes "\<forall>p \<in> set ps. valid p"
  shows "\<exists>T. aggregate_prefixes P ps = Some (sorted_list_of_fset T) \<and> wf T \<and> U T = (\<Union>p \<in> set ps. addrs p)"
  using ipset_add_all_ok [of "{||}" ps] assms
  by (auto simp: aggregate_prefixes_def ipset_from_def get_prefixes_def)

end

locale prefix_splits = prefix_algebra P valid addrs
  for P :: "'p::linorder prefix_ops" and valid :: "'p \<Rightarrow> bool" and addrs :: "'p \<Rightarrow> 'x set" +
  fixes splits :: "'p \<Rightarrow> bool"
  assumes bifurcates: "valid c \<Longrightarrow> splits c \<Longrightarrow> valid p \<Longrightarrow> addrs p \<subset> addrs c \<Longrightarrow>
    \<exists>e d. p_bifurcate P c = Some (Some (e, d)) \<and> valid e \<and> valid d \<and> splits e \<and> splits d
      \<and> addrs c = addrs e \<union> addrs d \<and> p_sibling P e = Some (Some d)"
begin

lemma fragment_ok:
  assumes "wf S" "valid c" "splits c" "valid p" "addrs p \<subseteq> addrs c" "addrs c \<inter> U S = {}"
  shows "\<exists>T. fragment P p c S = Some T \<and> wf T \<and> U T = U S \<union> (addrs c - addrs p)"
  using assms
proof (induction "card (addrs c)" arbitrary: c S rule: less_induct)
  case less
  show ?case
  proof (cases "c = p")
    case True
    with less.prems show ?thesis by (subst fragment.simps) simp
  next
    case False
    with addrs_inj less.prems have sub: "addrs p \<subset> addrs c" by blast
    obtain e d where ed: "p_bifurcate P c = Some (Some (e, d))" "valid e" "valid d" "splits e" "splits d"
        "addrs c = addrs e \<union> addrs d" "p_sibling P e = Some (Some d)"
      using bifurcates [OF less.prems(2-4) sub] by blast
    have dis: "addrs e \<inter> addrs d = {}" by (rule sibling_disjoint [OF ed(2,7)])
    have sym: "p_sibling P d = Some (Some e)" by (rule sibling_sym [OF ed(2,7)])
    have ne: "addrs e \<noteq> {}" "addrs d \<noteq> {}" using addrs_nonempty ed by auto
    have smaller: "card (addrs e) < card (addrs c)" "card (addrs d) < card (addrs c)"
      using addrs_finite [OF less.prems(2)] ed(6) dis ne by (auto intro!: psubset_card_mono)
    have out: "e |\<notin>| S" "d |\<notin>| S" using less.prems(6) ed(6) ne by (auto simp: space_def)
    have step: "\<exists>T. fragment P p h (finsert k S) = Some T \<and> wf T \<and> U T = U S \<union> (addrs c - addrs p)"
      if "valid h" "splits h" "valid k" "addrs p \<subseteq> addrs h" "addrs c = addrs h \<union> addrs k" "addrs h \<inter> addrs k = {}"
        "p_sibling P k = Some (Some h)" "h |\<notin>| S" "card (addrs h) < card (addrs c)" for h k
    proof -
      have w: "wf (finsert k S)" by (rule wf_finsert) (use that less.prems in auto)
      have "addrs h \<inter> U (finsert k S) = {}" using that less.prems(6) by auto
      from less.hyps [OF that(9) w that(1,2) less.prems(4) that(4) this]
      obtain T where T: "fragment P p h (finsert k S) = Some T" "wf T" "U T = addrs k \<union> U S \<union> (addrs h - addrs p)"
        by auto
      have "U T = U S \<union> (addrs c - addrs p)" unfolding T(3) using that(4,5,6) by blast
      with T show ?thesis by blast
    qed
    show ?thesis
    proof (cases "addrs p \<subseteq> addrs e")
      case True
      have "fragment P p c S = fragment P p e (finsert d S)"
        using False ed True less.prems contains_iff by (subst fragment.simps) simp
      with step [of e d] ed True dis sym out smaller show ?thesis by simp
    next
      case np: False
      have "\<not> addrs e \<subset> addrs p"
        using sibling_in_container [OF ed(2) less.prems(4) ed(7)] sub ed(6) by blast
      then have "addrs p \<inter> addrs e = {}" using laminar [OF less.prems(4) ed(2)] np by blast
      then have pd: "addrs p \<subseteq> addrs d" using sub ed(6) by blast
      have "fragment P p c S = fragment P p d (finsert e S)"
        using False ed np pd less.prems contains_iff by (subst fragment.simps) simp
      with step [of d e] ed pd dis out smaller show ?thesis by (simp add: Un_commute Int_commute)
    qed
  qed
qed

lemma ipset_remove_ok:
  assumes "wf S" "valid p" "addrs p \<subseteq> U S"
    and sp: "\<And>c. c |\<in>| S \<Longrightarrow> addrs p \<subseteq> addrs c \<Longrightarrow> splits c"
  shows "\<exists>T. ipset_remove P S p = Some T \<and> wf T \<and> U T = U S - addrs p"
proof -
  obtain c where c: "c |\<in>| S" "addrs p \<subseteq> addrs c" using covered_single [OF assms(1-3)] by blast
  let ?S = "S |-| {|c|}"
  have w: "wf ?S" by (rule wf_subset [OF assms(1)]) auto
  have u: "U ?S = U S - addrs c" by (rule space_remove [OF assms(1) c(1)])
  have cu: "addrs c \<subseteq> U S" using c by (auto simp: space_def)
  have "addrs c \<inter> U ?S = {}" using u by blast
  then obtain T where "fragment P p c ?S = Some T" "wf T" "U T = U ?S \<union> (addrs c - addrs p)"
    using fragment_ok [OF w wf_valid [OF assms(1) c(1)] sp [OF c] assms(2) c(2)] by blast
  then show ?thesis
    using get_containing_prefix_iff [OF assms(1,2), of c] c u cu by (auto simp: ipset_remove_def)
qed

lemma ipset_remove_outside:
  assumes "wf S" "valid p" "\<not> addrs p \<subseteq> U S"
  shows "ipset_remove P S p = Some S"
  using contains_prefix_iff [OF assms(1,2)] assms(3)
  by (auto simp: ipset_remove_def contains_prefix_def)

end

section \<open>Prefixes of both families\<close>

fun ip_valid :: "('n4, 'n6) families \<Rightarrow> ('n4, 'n6) ip_prefix \<Rightarrow> bool" where
  "ip_valid (o4, o6) (V4 n) = canonical o4 n"
| "ip_valid (o4, o6) (V6 n) = canonical o6 n"

fun ip_addrs :: "('n4, 'n6) families \<Rightarrow> ('n4, 'n6) ip_prefix \<Rightarrow> (nat + nat) set" where
  "ip_addrs (o4, o6) (V4 n) = Inl ` covers o4 n"
| "ip_addrs (o4, o6) (V6 n) = Inr ` covers o6 n"

fun is_v4 :: "('n4, 'n6) ip_prefix \<Rightarrow> bool" where
  "is_v4 (V4 _) = True"
| "is_v4 (V6 _) = False"

lemma inj_image_rules:
  "Inl ` A \<subseteq> Inl ` B \<longleftrightarrow> A \<subseteq> B" "Inr ` A \<subseteq> Inr ` B \<longleftrightarrow> A \<subseteq> B"
  "Inl ` A = Inl ` B \<longleftrightarrow> A = B" "Inr ` A = Inr ` B \<longleftrightarrow> A = B"
  "Inl ` A \<inter> Inl ` B = Inl ` (A \<inter> B)" "Inr ` A \<inter> Inr ` B = Inr ` (A \<inter> B)"
  "Inl ` A \<inter> Inr ` B = {}" "Inr ` B \<inter> Inl ` A = {}"
  "Inl ` A = Inr ` B \<longleftrightarrow> A = {} \<and> B = {}" "Inr ` B = Inl ` A \<longleftrightarrow> A = {} \<and> B = {}"
  "Inl ` A \<subseteq> Inr ` B \<longleftrightarrow> A = {}" "Inr ` B \<subseteq> Inl ` A \<longleftrightarrow> B = {}"
  by auto

lemmas family_simps = ip_prefix_ops_def ipv4_contains_def ipv6_contains_def net_laws inj_image_rules
  ipv4_get_last_subprefix_def ipv6_get_last_subprefix_def psubset_eq

context ipnet_api
begin

lemma covers_basic:
  "covers ops n \<noteq> {}" "finite (covers ops n)"
  "covers ops n \<inter> covers ops m = {} \<or> covers ops n \<subseteq> covers ops m \<or> covers ops m \<subseteq> covers ops n"
  using dy_laminar by (simp_all add: covers_def)

lemma sibling_covers:
  assumes "canonical ops p" "sibling_at ops p = Some (Some s)"
  shows "covers ops p \<inter> covers ops s = {}" "card (covers ops s) = card (covers ops p)"
    "covers ops p \<subset> covers ops r \<Longrightarrow> covers ops s \<subseteq> covers ops r"
    "\<exists>a. aggregate_at ops p s = Some a \<and> canonical ops a \<and> covers ops a = covers ops p \<union> covers ops s"
proof -
  note s = sibling_facts [OF assms]
  show "covers ops p \<inter> covers ops s = {}" "card (covers ops s) = card (covers ops p)"
    by (simp_all add: covers_def s)
  show "covers ops s \<subseteq> covers ops r" if "covers ops p \<subset> covers ops r"
    using dy_parent_subset [OF that [unfolded covers_def]] dy_union_sib [of "h p" "q p"]
    by (auto simp: covers_def s)
  show "\<exists>a. aggregate_at ops p s = Some a \<and> canonical ops a \<and> covers ops a = covers ops p \<union> covers ops s"
    using aggregate_sibling [OF assms] aggregate_sound [OF assms(1) s(1)] by blast
qed

lemma sibling_total_at: "canonical ops p \<Longrightarrow> sibling_at ops p \<noteq> None"
  using sibling_spec [of p] by (auto split: if_splits)

end

locale ip_families = v4: ipnet_api o4 + v6: ipnet_api o6
  for o4 :: "('n4::linorder, 32) ipnet_ops" and o6 :: "('n6::linorder, 128) ipnet_ops"

text \<open>Prefixes of both families satisfy the laws of \<open>prefix_algebra\<close>.\<close>

sublocale ip_families \<subseteq> prefix_algebra "ip_prefix_ops (o4, o6)" "ip_valid (o4, o6)" "ip_addrs (o4, o6)"
proof
  fix p q r c s :: "('n4, 'n6) ip_prefix"
  let ?P = "ip_prefix_ops (o4, o6)" and ?v = "ip_valid (o4, o6)" and ?a = "ip_addrs (o4, o6)"
  show "?a p \<noteq> {}" using v4.covers_basic v6.covers_basic by (cases p) auto
  show "finite (?a p)" using v4.covers_basic v6.covers_basic by (cases p) auto
  show "?v p \<Longrightarrow> ?v q \<Longrightarrow> ?a p = ?a q \<Longrightarrow> p = q"
    using v4.covers_inj v6.covers_inj v4.covers_basic(1) v6.covers_basic(1)
    by (cases p; cases q) (auto simp: family_simps)
  show "?a p \<inter> ?a q = {} \<or> ?a p \<subseteq> ?a q \<or> ?a q \<subseteq> ?a p"
    using v4.covers_basic(3) v6.covers_basic(3) by (cases p; cases q) (simp_all add: family_simps)
  show "p_contains ?P p q \<longleftrightarrow> ?a q \<subseteq> ?a p"
    using v4.covers_basic(1) v6.covers_basic(1)
    by (cases p; cases q) (auto simp: family_simps v4.contains_covers v6.contains_covers)
  show "?v p \<Longrightarrow> ?v q \<Longrightarrow> ?a q \<subseteq> ?a p \<Longrightarrow> p \<le> q"
    using v4.contained_after v6.contained_after v6.covers_basic(1) v4.covers_basic(1)
    by (cases p; cases q) (auto simp: inj_image_rules)
  show "?v c \<Longrightarrow> ?v r \<Longrightarrow> ?v p \<Longrightarrow> ?a p \<subseteq> ?a c \<Longrightarrow> c \<le> r \<Longrightarrow> r \<le> p \<Longrightarrow> ?a r \<inter> ?a c \<noteq> {}"
    using v4.between_covers v6.between_covers v6.covers_basic(1) v4.covers_basic(1)
    by (cases p; cases c; cases r) (auto simp: inj_image_rules)
  show "?v p \<Longrightarrow> ?v q \<Longrightarrow> ?a q \<subseteq> ?a p \<Longrightarrow> q \<le> p_last ?P p"
    using v4.last_subprefix_bound v6.last_subprefix_bound v6.covers_basic(1) v4.covers_basic(1)
    by (cases p; cases q) (auto simp: family_simps)
  show "?v p \<Longrightarrow> p_sibling ?P p \<noteq> None"
    using v4.sibling_total_at v6.sibling_total_at by (cases p) (auto simp: family_simps)
  show "?v p \<Longrightarrow> p_sibling ?P p = Some None \<Longrightarrow> \<not> ?a p \<subset> ?a q"
    using v4.sibling_none_top v6.sibling_none_top v6.covers_basic(1) v4.covers_basic(1)
    by (cases p; cases q) (auto simp: family_simps)
  assume "?v p" and "p_sibling ?P p = Some (Some s)"
  then consider (four) n m where "p = V4 n" "s = V4 m" "canonical o4 n" "sibling_at o4 n = Some (Some m)"
    | (six) n m where "p = V6 n" "s = V6 m" "canonical o6 n" "sibling_at o6 n = Some (Some m)"
    by (cases p) (auto simp: family_simps)
  then have "?v s \<and> p_sibling ?P s = Some (Some p) \<and> ?a p \<inter> ?a s = {} \<and> card (?a s) = card (?a p)
    \<and> (?a p \<subset> ?a q \<longrightarrow> ?a s \<subseteq> ?a q) \<and> (\<exists>a. p_aggregate ?P p s = Some a \<and> ?v a \<and> ?a a = ?a p \<union> ?a s)"
  proof cases
    case four
    note f = v4.sibling_facts [OF four(3,4)] and c = v4.sibling_covers [OF four(3,4)]
    obtain a where "aggregate_at o4 n m = Some a" "canonical o4 a" "covers o4 a = covers o4 n \<union> covers o4 m"
      using c(4) by blast
    with four f c(1-3) show ?thesis
      by (cases q) (simp_all add: family_simps card_image image_Un v4.covers_basic(1))
  next
    case six
    note f = v6.sibling_facts [OF six(3,4)] and c = v6.sibling_covers [OF six(3,4)]
    obtain a where "aggregate_at o6 n m = Some a" "canonical o6 a" "covers o6 a = covers o6 n \<union> covers o6 m"
      using c(4) by blast
    with six f c(1-3) show ?thesis
      by (cases q) (simp_all add: family_simps card_image image_Un v6.covers_basic(1))
  qed
  then show "?v s" "p_sibling ?P s = Some (Some p)" "?a p \<inter> ?a s = {}" "card (?a s) = card (?a p)"
    "?a p \<subset> ?a q \<Longrightarrow> ?a s \<subseteq> ?a q" "\<exists>a. p_aggregate ?P p s = Some a \<and> ?v a \<and> ?a a = ?a p \<union> ?a s"
    by blast+
qed

text \<open>IPv4 prefixes can be halved down to any prefix inside them.\<close>

sublocale ip_families \<subseteq> prefix_splits "ip_prefix_ops (o4, o6)" "ip_valid (o4, o6)" "ip_addrs (o4, o6)" is_v4
proof
  fix c p :: "('n4, 'n6) ip_prefix"
  assume vc: "ip_valid (o4, o6) c" "is_v4 c" and sub: "ip_addrs (o4, o6) p \<subset> ip_addrs (o4, o6) c"
  obtain n where n: "c = V4 n" "canonical o4 n" using vc by (cases c) auto
  obtain m where m: "p = V4 m" "covers o4 m \<subset> covers o4 n"
    using sub n v6.covers_basic(1) by (cases p) (auto simp: family_simps)
  have "host_bits o4 n \<noteq> 0"
  proof
    assume "host_bits o4 n = 0"
    with m(2) show False by (auto simp: covers_def psubset_eq dy_subset_iff)
  qed
  then have len: "net_prefix_len o4 n \<le> 31" and h: "host_bits o4 n = Suc (host_bits o4 n - 1)"
    by (auto simp: host_bits_def)
  from ipv4_bifurcate_halves [OF v4.ipnet_api_axioms n(2) len] obtain e d where ed:
      "ipv4_bifurcate o4 n = Some (Some (e, d))" "canonical o4 e" "canonical o4 d"
      "host_bits o4 e = host_bits o4 n - 1" "host_bits o4 d = host_bits o4 n - 1"
      "block_no o4 e = 2 * block_no o4 n" "block_no o4 d = Suc (2 * block_no o4 n)"
    by blast
  have cov: "covers o4 n = covers o4 e \<union> covers o4 d"
    using dy_halves [of "host_bits o4 n - 1" "block_no o4 n"] h ed by (simp add: covers_def)
  have "net_prefix_len o4 e \<noteq> 0" using ed(4) h v4.prefix_len_le [of e] by (auto simp: host_bits_def)
  with v4.sibling_spec [OF ed(2)] obtain t
    where t: "sibling_at o4 e = Some (Some t)" "canonical o4 t" "host_bits o4 t = host_bits o4 e"
      "block_no o4 t = sib (block_no o4 e)" by auto
  have "t = d" by (rule v4.canonical_eqI [OF t(2) ed(3)]) (simp_all add: t ed sib_def)
  with t ed cov n show "\<exists>e d. p_bifurcate (ip_prefix_ops (o4, o6)) c = Some (Some (e, d))
      \<and> ip_valid (o4, o6) e \<and> ip_valid (o4, o6) d \<and> is_v4 e \<and> is_v4 d
      \<and> ip_addrs (o4, o6) c = ip_addrs (o4, o6) e \<union> ip_addrs (o4, o6) d
      \<and> p_sibling (ip_prefix_ops (o4, o6)) e = Some (Some d)"
    by (intro exI [of _ "V4 e"] exI [of _ "V4 d"]) (simp add: family_simps image_Un)
qed

context ip_families
begin

lemmas fam_add = ipset_add_ok
lemmas fam_contains = contains_prefix_iff
lemmas fam_aggregate = aggregate_prefixes_ok
lemmas fam_determined = space_determines
lemmas fam_remove = ipset_remove_ok
lemmas fam_remove_outside = ipset_remove_outside

end

interpretation ref_families: ip_families ref_net_ops ref_net_ops
  by unfold_locales

section \<open>Properties\<close>

text \<open>
  C17. Adding a prefix to a well-formed set succeeds, keeps the set well-formed (members disjoint,
  no two of them mergeable), and adds exactly the addresses of the prefix; afterwards the set
  contains a prefix exactly when its addresses were in the set or in the added prefix, even when
  no single old member covered it.
\<close>

theorem ipset_add_exact:
  assumes "ip_families o4 o6"
    and "ipset_wf (ip_prefix_ops (o4, o6)) (ip_valid (o4, o6)) (ip_addrs (o4, o6)) S" and "ip_valid (o4, o6) p"
  shows "\<exists>T. ipset_add (ip_prefix_ops (o4, o6)) S p = Some T
    \<and> ipset_wf (ip_prefix_ops (o4, o6)) (ip_valid (o4, o6)) (ip_addrs (o4, o6)) T
    \<and> space (ip_addrs (o4, o6)) T = space (ip_addrs (o4, o6)) S \<union> ip_addrs (o4, o6) p
    \<and> (\<forall>q. ip_valid (o4, o6) q \<longrightarrow>
         contains_prefix (ip_prefix_ops (o4, o6)) T q \<longleftrightarrow>
         ip_addrs (o4, o6) q \<subseteq> space (ip_addrs (o4, o6)) S \<union> ip_addrs (o4, o6) p)"
  using ip_families.fam_add [OF assms] ip_families.fam_contains [OF assms(1)] by metis

lemma ref_set_wf:
  "ipset_wf (ip_prefix_ops (ref_net_ops, ref_net_ops)) (ip_valid (ref_net_ops, ref_net_ops))
     (ip_addrs (ref_net_ops, ref_net_ops)) {|V4 (mk_net 0x0A000000 24)|}"
  by (simp add: ipset_wf_def family_simps sibling_at_def canonical_def ref_first_def ref_block_def ref_host_def
      ref_net_ops_def)

lemma ref_valid: "ip_valid (ref_net_ops, ref_net_ops) (V4 (mk_net 0x0A000100 24))"
  "ip_valid (ref_net_ops, ref_net_ops) (V4 (mk_net 0x0A000000 24))"
  "ip_valid (ref_net_ops, ref_net_ops) (V4 (mk_net 0x0A000080 25))"
  "ip_valid (ref_net_ops, ref_net_ops) (V4 (mk_net 0x0A000000 23))"
  by (simp_all add: canonical_def ref_first_def ref_block_def ref_host_def)

theorem ipset_add_exact_witness:
  "\<exists>T. ipset_add (ip_prefix_ops (ref_net_ops, ref_net_ops)) {|V4 (mk_net 0x0A000000 24)|} (V4 (mk_net 0x0A000100 24)) = Some T
    \<and> contains_prefix (ip_prefix_ops (ref_net_ops, ref_net_ops)) T (V4 (mk_net 0x0A000100 24))"
  using ipset_add_exact [OF ref_families.ip_families_axioms ref_set_wf ref_valid(1)] ref_valid(1) by blast

text \<open>
  C9. Aggregating a list of prefixes never fails, and the result is the canonical description of the
  covered addresses: sorted, without repetition, with disjoint members that cover exactly the given
  addresses, and equal for any two lists that cover the same addresses, whatever their order,
  overlap or splitting.
\<close>

theorem aggregate_prefixes_canonical:
  assumes fam: "ip_families o4 o6"
    and ps: "\<forall>p \<in> set ps. ip_valid (o4, o6) p" and qs: "\<forall>q \<in> set qs. ip_valid (o4, o6) q"
    and same: "(\<Union>p \<in> set ps. ip_addrs (o4, o6) p) = (\<Union>q \<in> set qs. ip_addrs (o4, o6) q)"
  shows "\<exists>xs. aggregate_prefixes (ip_prefix_ops (o4, o6)) ps = Some xs
    \<and> aggregate_prefixes (ip_prefix_ops (o4, o6)) qs = Some xs
    \<and> sorted xs \<and> distinct xs
    \<and> (\<Union>x \<in> set xs. ip_addrs (o4, o6) x) = (\<Union>p \<in> set ps. ip_addrs (o4, o6) p)
    \<and> (\<forall>x \<in> set xs. \<forall>y \<in> set xs. x \<noteq> y \<longrightarrow> ip_addrs (o4, o6) x \<inter> ip_addrs (o4, o6) y = {})"
proof -
  obtain S where S: "aggregate_prefixes (ip_prefix_ops (o4, o6)) ps = Some (sorted_list_of_fset S)"
      "ipset_wf (ip_prefix_ops (o4, o6)) (ip_valid (o4, o6)) (ip_addrs (o4, o6)) S"
      "space (ip_addrs (o4, o6)) S = (\<Union>p \<in> set ps. ip_addrs (o4, o6) p)"
    using ip_families.fam_aggregate [OF fam ps] by blast
  obtain T where T: "aggregate_prefixes (ip_prefix_ops (o4, o6)) qs = Some (sorted_list_of_fset T)"
      "ipset_wf (ip_prefix_ops (o4, o6)) (ip_valid (o4, o6)) (ip_addrs (o4, o6)) T"
      "space (ip_addrs (o4, o6)) T = (\<Union>q \<in> set qs. ip_addrs (o4, o6) q)"
    using ip_families.fam_aggregate [OF fam qs] by blast
  have "T = S" by (rule ip_families.fam_determined [OF fam T(2) S(2)]) (simp add: S T same)
  with S T show ?thesis
    by (intro exI [of _ "sorted_list_of_fset S"])
       (simp add: sorted_list_of_fset.rep_eq space_def ipset_wf_def)
qed

lemma ref_halves: "dy 9 327680 = dy 8 655360 \<union> dy 8 655361"
  using dy_halves [of 8 327680] by simp

theorem aggregate_prefixes_canonical_witness:
  "\<exists>xs. aggregate_prefixes (ip_prefix_ops (ref_net_ops, ref_net_ops))
          [V4 (mk_net 0x0A000000 23 :: 32 ref_net), V4 (mk_net 0x0A000100 24)] = Some xs
      \<and> aggregate_prefixes (ip_prefix_ops (ref_net_ops, ref_net_ops))
          [V4 (mk_net 0x0A000100 24 :: 32 ref_net), V4 (mk_net 0x0A000000 24) :: (32 ref_net, 128 ref_net) ip_prefix] = Some xs"
proof -
  have "(\<Union>p \<in> set [V4 (mk_net 0x0A000000 23 :: 32 ref_net), V4 (mk_net 0x0A000100 24)]. ip_addrs (ref_net_ops, ref_net_ops) p)
      = (\<Union>q \<in> set [V4 (mk_net 0x0A000100 24 :: 32 ref_net), V4 (mk_net 0x0A000000 24) :: (32 ref_net, 128 ref_net) ip_prefix].
           ip_addrs (ref_net_ops, ref_net_ops) q)"
    by (simp add: covers_def ref_host_def ref_block_def ref_halves) blast
  from aggregate_prefixes_canonical [OF ref_families.ip_families_axioms _ _ this] ref_valid show ?thesis by auto
qed

text \<open>
  C18. Removing an IPv4 prefix never panics and keeps the set well-formed. When all its addresses are
  in the set exactly they are removed; when only some of them are, nothing is removed at all.
\<close>

theorem ipset_remove_v4:
  assumes fam: "ip_families o4 o6"
    and wf: "ipset_wf (ip_prefix_ops (o4, o6)) (ip_valid (o4, o6)) (ip_addrs (o4, o6)) S"
    and v: "ip_valid (o4, o6) p" and "is_v4 p"
  shows "\<exists>T. ipset_remove (ip_prefix_ops (o4, o6)) S p = Some T
    \<and> ipset_wf (ip_prefix_ops (o4, o6)) (ip_valid (o4, o6)) (ip_addrs (o4, o6)) T
    \<and> (if ip_addrs (o4, o6) p \<subseteq> space (ip_addrs (o4, o6)) S
       then space (ip_addrs (o4, o6)) T = space (ip_addrs (o4, o6)) S - ip_addrs (o4, o6) p
       else T = S)"
proof (cases "ip_addrs (o4, o6) p \<subseteq> space (ip_addrs (o4, o6)) S")
  case True
  have "is_v4 c" if "ip_addrs (o4, o6) p \<subseteq> ip_addrs (o4, o6) c" for c
    using that assms(4) ipnet_api.covers_basic(1) [OF ip_families.axioms(1) [OF fam]]
    by (cases p; cases c) (auto simp: inj_image_rules)
  with True ip_families.fam_remove [OF fam wf v True] show ?thesis by auto
next
  case False
  with wf ip_families.fam_remove_outside [OF fam wf v False] show ?thesis by auto
qed

theorem ipset_remove_v4_witness:
  "\<exists>T. ipset_remove (ip_prefix_ops (ref_net_ops, ref_net_ops)) {|V4 (mk_net 0x0A000000 24)|} (V4 (mk_net 0x0A000080 25)) = Some T
    \<and> ipset_wf (ip_prefix_ops (ref_net_ops, ref_net_ops)) (ip_valid (ref_net_ops, ref_net_ops))
        (ip_addrs (ref_net_ops, ref_net_ops)) T"
  using ipset_remove_v4 [OF ref_families.ip_families_axioms ref_set_wf ref_valid(3)] by auto

text \<open>
  C33. On IPv6 the same call panics: the set that holds one prefix cannot have the upper half of that
  prefix removed, because \<open>Ipv6Prefix::bifurcate\<close> returns the lower half twice and the loop reaches
  \<open>unreachable!()\<close>.
\<close>

theorem ipset_remove_v6_panics:
  assumes fam: "ip_families o4 o6"
    and n: "canonical o6 n" and u: "canonical o6 u"
    and half: "host_bits o6 n = Suc (host_bits o6 u)" "block_no o6 u = Suc (2 * block_no o6 n)"
  shows "ipset_remove (ip_prefix_ops (o4, o6)) {|V6 n|} (V6 u) = None"
proof -
  have api: "ipnet_api o6" by (rule ip_families.axioms(2) [OF fam])
  note c6 = ipnet_api.contains_covers [OF api]
  have inside: "covers o6 u \<subseteq> covers o6 n"
    using dy_halves [of "host_bits o6 u" "block_no o6 n"] half by (auto simp: covers_def)
  have le: "V6 n \<le> (V6 u :: ('a, 'b) ip_prefix)"
    using ipnet_api.contained_after [OF api n u inside] by simp
  have "net_prefix_len o6 n \<le> 127" using half(1) by (auto simp: host_bits_def)
  from ipv6_bifurcate_same_half [OF api n this] obtain e d where
    ed: "ipv6_bifurcate o6 n = Some (Some (e, d))" "covers o6 e = dy (host_bits o6 u) (2 * block_no o6 n)" "covers o6 d = covers o6 e"
    using half(1) by auto
  have "\<not> covers o6 u \<subseteq> covers o6 e" by (simp add: covers_def [of o6 u] ed(2) half(2) dy_subset_iff)
  moreover have "n \<noteq> u" using half(1) by auto
  moreover have "ffilter (\<lambda>q. q \<le> V6 u) {|V6 n :: ('a, 'b) ip_prefix|} = {|V6 n|}"
    using le by (intro fset_eqI) auto
  then have "get_containing_prefix (ip_prefix_ops (o4, o6)) {|V6 n|} (V6 u) = Some (V6 n)"
    using inside by (simp add: get_containing_prefix_def Let_def family_simps c6)
  ultimately show ?thesis
    using ed by (simp add: ipset_remove_def fragment.simps [of _ _ "V6 n"] family_simps c6)
qed

theorem ipset_remove_v6_panics_witness:
  "ipset_remove (ip_prefix_ops (ref_net_ops, ref_net_ops)) {|V6 (mk_net 0 0)|} (V6 (mk_net (2 ^ 127) 1)) = None"
  by (rule ipset_remove_v6_panics [OF ref_families.ip_families_axioms])
     (simp_all add: canonical_def ref_first_def ref_block_def ref_host_def)

end
