(* ===== verification/Std_Net.thy ===== *)
theory Std_Net
  imports Dyadic
begin

text \<open>
  The parts of the Rust standard library that read and print integers and IP addresses:
  \<open>i64::from_str_radix\<close>, \<open>Ipv4Addr\<close> and \<open>Ipv6Addr\<close> with their \<open>FromStr\<close> and \<open>Display\<close>. Addresses are the
  words \<open>u32\<close> and \<open>u128\<close> of \<open>to_bits\<close>. The lemmas give the round trips for decimal integers and for
  IPv4 addresses.
\<close>

section \<open>Integers in a radix\<close>

datatype int_error_kind = IntEmpty | InvalidDigit | PosOverflow | NegOverflow

fun show_int_error :: "int_error_kind \<Rightarrow> string" where
  "show_int_error IntEmpty = ''cannot parse integer from empty string''"
| "show_int_error InvalidDigit = ''invalid digit found in string''"
| "show_int_error PosOverflow = ''number too large to fit in target type''"
| "show_int_error NegOverflow = ''number too small to fit in target type''"

definition to_digit :: "nat \<Rightarrow> char \<Rightarrow> nat option" where
  "to_digit radix c =
     (let n = (of_char c :: nat);
          d = (if 48 \<le> n \<and> n \<le> 57 then Some (n - 48)
               else if 97 \<le> n \<and> n \<le> 122 then Some (n - 87)
               else if 65 \<le> n \<and> n \<le> 90 then Some (n - 55) else None)
      in case d of None \<Rightarrow> None | Some k \<Rightarrow> if k < radix then Some k else None)"

definition in_i64 :: "int \<Rightarrow> bool" where
  "in_i64 i \<longleftrightarrow> - (2 ^ 63) \<le> i \<and> i < 2 ^ 63"

fun read_digits :: "nat \<Rightarrow> bool \<Rightarrow> int \<Rightarrow> string \<Rightarrow> int_error_kind + int" where
  "read_digits radix neg acc [] = Inr acc"
| "read_digits radix neg acc (c # cs) =
     (case to_digit radix c of
        None \<Rightarrow> Inl InvalidDigit
      | Some d \<Rightarrow>
          (let overflow = Inl (if neg then NegOverflow else PosOverflow);
               scaled = acc * int radix;
               next = (if neg then scaled - int d else scaled + int d)
           in if \<not> in_i64 scaled \<or> \<not> in_i64 next then overflow else read_digits radix neg next cs))"

definition from_str_radix_i64 :: "string \<Rightarrow> nat \<Rightarrow> int_error_kind + int" where
  "from_str_radix_i64 s radix =
     (case s of
        [] \<Rightarrow> Inl IntEmpty
      | c # cs \<Rightarrow>
          if c = CHR ''+'' then (if cs = [] then Inl InvalidDigit else read_digits radix False 0 cs)
          else if c = CHR ''-'' then (if cs = [] then Inl InvalidDigit else read_digits radix True 0 cs)
          else read_digits radix False 0 s)"

lemma to_digit_decimal: "is_digit c \<Longrightarrow> to_digit 10 c = Some (digit_val c)"
  by (auto simp: to_digit_def is_digit_def digit_val_def Let_def)

lemma digit_val_less: "is_digit c \<Longrightarrow> digit_val c < 10"
  by (auto simp: is_digit_def digit_val_def)

lemma foldl_digits_ge: "(acc :: nat) \<le> foldl (\<lambda>acc c. 10 * acc + digit_val c) acc cs"
proof (induction cs arbitrary: acc)
  case (Cons c cs)
  have "acc \<le> 10 * acc + digit_val c" by simp
  also have "\<dots> \<le> foldl (\<lambda>acc c. 10 * acc + digit_val c) (10 * acc + digit_val c) cs" by (rule Cons)
  finally show ?case by simp
qed simp

text \<open>Reading decimal digits: the value so far only grows, so every intermediate value is in range
  when the final one is.\<close>

lemma read_digits_decimal:
  assumes "list_all is_digit cs"
    and "(if neg then in_i64 (- int (foldl (\<lambda>acc c. 10 * acc + digit_val c) n cs))
          else in_i64 (int (foldl (\<lambda>acc c. 10 * acc + digit_val c) n cs)))"
  shows "read_digits 10 neg (if neg then - int n else int n) cs
    = Inr (if neg then - int (foldl (\<lambda>acc c. 10 * acc + digit_val c) n cs)
           else int (foldl (\<lambda>acc c. 10 * acc + digit_val c) n cs))"
  using assms
proof (induction cs arbitrary: n)
  case (Cons c cs)
  let ?n = "10 * n + digit_val c"
  have "?n \<le> foldl (\<lambda>acc c. 10 * acc + digit_val c) ?n cs" by (rule foldl_digits_ge)
  with Cons.prems have rng: "in_i64 (if neg then - int ?n else int ?n)"
    "in_i64 ((if neg then - int n else int n) * 10)"
    by (auto simp: in_i64_def split: if_splits)
  have "read_digits 10 neg (if neg then - int n else int n) (c # cs)
      = read_digits 10 neg (if neg then - int ?n else int ?n) cs"
    using rng Cons.prems(1) by (cases neg) (simp_all add: to_digit_decimal Let_def mult.commute)
  also have "\<dots> = Inr (if neg then - int (foldl (\<lambda>acc c. 10 * acc + digit_val c) ?n cs)
           else int (foldl (\<lambda>acc c. 10 * acc + digit_val c) ?n cs))"
    by (rule Cons.IH) (use Cons.prems in \<open>auto split: if_splits\<close>)
  finally show ?case by simp
qed simp

lemma hd_show_nat_digit: "is_digit (hd (show_nat n))"
  using show_nat_digits [of n] show_nat_Nil [of n] by (cases "show_nat n") (auto simp del: show_nat_Nil)

lemma from_str_radix_show_int:
  assumes "in_i64 i"
  shows "from_str_radix_i64 (show_int i) 10 = Inr i"
proof (cases "i < 0")
  case True
  have "read_digits 10 True 0 (show_nat (nat (- i))) = Inr i"
    using read_digits_decimal [of "show_nat (nat (- i))" True 0] show_nat_digits dec_value_show_nat assms True
    by (simp add: dec_value_def)
  with True show ?thesis by (simp add: from_str_radix_i64_def show_int_def)
next
  case False
  have "read_digits 10 False 0 (show_nat (nat i)) = Inr i"
    using read_digits_decimal [of "show_nat (nat i)" False 0] show_nat_digits dec_value_show_nat assms False
    by (simp add: dec_value_def)
  moreover have "hd (show_nat (nat i)) \<noteq> CHR ''+''" "hd (show_nat (nat i)) \<noteq> CHR ''-''"
    using hd_show_nat_digit [of "nat i"] by (auto simp: is_digit_def)
  ultimately show ?thesis
    using False show_nat_Nil [of "nat i"]
    by (cases "show_nat (nat i)") (simp_all add: from_str_radix_i64_def show_int_def del: show_nat_Nil)
qed

section \<open>IPv4 addresses\<close>

definition parse_octet :: "string \<Rightarrow> nat option" where
  "parse_octet s =
     (if s \<noteq> [] \<and> length s \<le> 3 \<and> list_all is_digit s \<and> (length s = 1 \<or> hd s \<noteq> CHR ''0'') \<and> dec_value s \<le> 255
      then Some (dec_value s) else None)"

definition parse_ipv4 :: "string \<Rightarrow> u32 option" where
  "parse_ipv4 s =
     (case map parse_octet (split_on CHR ''.'' s) of
        [Some a, Some b, Some c, Some d] \<Rightarrow> Some (of_nat (((a * 256 + b) * 256 + c) * 256 + d))
      | _ \<Rightarrow> None)"

definition octet :: "nat \<Rightarrow> u32 \<Rightarrow> nat" where
  "octet k a = unat a div 256 ^ k mod 256"

definition show_ipv4 :: "u32 \<Rightarrow> string" where
  "show_ipv4 a = show_nat (octet 3 a) @ ''.'' @ show_nat (octet 2 a) @ ''.'' @ show_nat (octet 1 a)
     @ ''.'' @ show_nat (octet 0 a)"

lemma show_nat_length: "n < 1000 \<Longrightarrow> length (show_nat n) \<le> 3"
proof -
  assume "n < 1000"
  then have "n div 10 div 10 < 10" "n div 10 < 100" by linarith+
  then show ?thesis
    by (subst show_nat.simps, simp, subst show_nat.simps, simp, subst show_nat.simps, simp)
qed

lemma hd_show_nat_zero: "hd (show_nat n) = CHR ''0'' \<Longrightarrow> n = 0"
proof (induction n rule: show_nat.induct)
  case (1 n)
  show ?case
  proof (cases "n < 10")
    case True
    then have "show_nat n = [digit_char n]" by (subst show_nat.simps) simp
    with "1.prems" have "(of_char (digit_char n) :: nat) = 48" by simp
    with of_char_digit_char [OF True] show ?thesis by simp
  next
    case False
    have "show_nat n = show_nat (n div 10) @ [digit_char (n mod 10)]"
      using False by (subst show_nat.simps) simp
    with "1.prems" have "hd (show_nat (n div 10)) = CHR ''0''" by simp
    with "1.IH" False show ?thesis by auto
  qed
qed

lemma show_nat_zero: "show_nat 0 = ''0''"
  by (simp add: show_nat.simps digit_char_def char_of_def bit_Suc_0_iff)

lemma parse_octet_show [simp]: "n < 256 \<Longrightarrow> parse_octet (show_nat n) = Some n"
  using show_nat_length [of n] hd_show_nat_zero [of n] show_nat_zero
  by (auto simp: parse_octet_def show_nat_digits)

lemma show_nat_no_dot: "CHR ''.'' \<notin> set (show_nat n)"
  using show_nat_digits [of n] by (auto simp: list_all_iff is_digit_def)

lemma octets_value: "((octet 3 a * 256 + octet 2 a) * 256 + octet 1 a) * 256 + octet 0 a = unat a"
proof -
  have "unat a < 2 ^ 32" using unsigned_less [of a, where ?'a = nat] by simp
  then have top: "unat a div 16777216 < 256" by simp
  have "unat a div 65536 = unat a div 256 div 256" "unat a div 16777216 = unat a div 65536 div 256"
    by (simp_all add: div_mult2_eq [symmetric])
  with top mod_mult_div_eq [of "unat a" 256] mod_mult_div_eq [of "unat a div 256" 256]
    mod_mult_div_eq [of "unat a div 65536" 256]
  have "((unat a div 16777216 * 256 + unat a div 65536 mod 256) * 256 + unat a div 256 mod 256) * 256 + unat a mod 256 = unat a"
    by simp
  with top show ?thesis by (simp add: octet_def)
qed

lemma parse_show_ipv4 [simp]: "parse_ipv4 (show_ipv4 a) = Some a"
proof -
  have small: "octet k a < 256" for k by (simp add: octet_def)
  have "split_on CHR ''.'' (show_ipv4 a)
      = [show_nat (octet 3 a), show_nat (octet 2 a), show_nat (octet 1 a), show_nat (octet 0 a)]"
    by (simp add: show_ipv4_def split_on_sep split_on_no_sep show_nat_no_dot)
  then show ?thesis
    using octets_value [of a] small by (simp add: parse_ipv4_def del: of_nat_add of_nat_mult)
qed

lemma show_ipv4_inj: "show_ipv4 a = show_ipv4 b \<longleftrightarrow> a = b"
  by (metis option.inject parse_show_ipv4)

section \<open>IPv6 addresses\<close>

text \<open>The parser of the standard library reads from the front of the text and returns the rest.\<close>

definition radix_value :: "nat \<Rightarrow> string \<Rightarrow> nat" where
  "radix_value radix cs = foldl (\<lambda>acc c. radix * acc + (case to_digit radix c of Some d \<Rightarrow> d | None \<Rightarrow> 0)) 0 cs"

definition read_number :: "nat \<Rightarrow> nat \<Rightarrow> bool \<Rightarrow> nat \<Rightarrow> string \<Rightarrow> (nat \<times> string) option" where
  "read_number radix max_digits allow_zero_prefix bound s =
     (let ds = takeWhile (\<lambda>c. to_digit radix c \<noteq> None) s in
      if ds = [] \<or> max_digits < length ds \<or> \<not> allow_zero_prefix \<and> hd ds = CHR ''0'' \<and> 1 < length ds
         \<or> bound < radix_value radix ds
      then None else Some (radix_value radix ds, drop (length ds) s))"

fun read_given_char :: "char \<Rightarrow> string \<Rightarrow> string option" where
  "read_given_char d [] = None"
| "read_given_char d (c # cs) = (if c = d then Some cs else None)"

definition read_separator :: "char \<Rightarrow> nat \<Rightarrow> (string \<Rightarrow> ('a \<times> string) option) \<Rightarrow> string \<Rightarrow> ('a \<times> string) option" where
  "read_separator sep index inner s =
     (if 0 < index then Option.bind (read_given_char sep s) inner else inner s)"

fun read_octets :: "nat \<Rightarrow> nat \<Rightarrow> string \<Rightarrow> (nat list \<times> string) option" where
  "read_octets 0 i s = Some ([], s)"
| "read_octets (Suc k) i s =
     (case read_separator CHR ''.'' i (read_number 10 3 False 255) s of
        None \<Rightarrow> None
      | Some (n, rest) \<Rightarrow> map_option (\<lambda>(ns, r). (n # ns, r)) (read_octets k (Suc i) rest))"

fun read_groups :: "nat \<Rightarrow> nat \<Rightarrow> string \<Rightarrow> nat list \<times> bool \<times> string" where
  "read_groups 0 i s = ([], False, s)"
| "read_groups (Suc k) i s =
     (case (if 0 < k then read_separator CHR '':'' i (read_octets 4 0) s else None) of
        Some ([a, b, c, d], rest) \<Rightarrow> ([a * 256 + b, c * 256 + d], True, rest)
      | _ \<Rightarrow>
         (case read_separator CHR '':'' i (read_number 16 4 True 65535) s of
            None \<Rightarrow> ([], False, s)
          | Some (g, rest) \<Rightarrow> (case read_groups k (Suc i) rest of (gs, v4, r) \<Rightarrow> (g # gs, v4, r))))"

definition groups_value :: "nat list \<Rightarrow> u128" where
  "groups_value gs = of_nat (foldl (\<lambda>acc g. acc * 65536 + g) 0 gs)"

definition parse_ipv6 :: "string \<Rightarrow> u128 option" where
  "parse_ipv6 s =
     (case read_groups 8 0 s of (head, v4, rest) \<Rightarrow>
        if length head = 8 then (if rest = [] then Some (groups_value head) else None)
        else if v4 then None
        else case Option.bind (read_given_char CHR '':'' rest) (read_given_char CHR '':'') of
               None \<Rightarrow> None
             | Some rest' \<Rightarrow>
                 (case read_groups (7 - length head) 0 rest' of (tail, _, rest'') \<Rightarrow>
                    if rest'' = [] then
                      Some (groups_value (head @ replicate (8 - length head - length tail) 0 @ tail))
                    else None))"

fun show_hex :: "nat \<Rightarrow> string" where
  "show_hex n = (let d = (\<lambda>k. if k < 10 then digit_char k else char_of (87 + k)) in
     if n < 16 then [d n] else show_hex (n div 16) @ [d (n mod 16)])"

declare show_hex.simps [simp del]

definition segments :: "u128 \<Rightarrow> nat list" where
  "segments a = map (\<lambda>k. unat a div 65536 ^ (7 - k) mod 65536) [0..<8]"

text \<open>The longest run of zero groups, the first of them on a tie: its start and its length.\<close>

fun longest_zeroes :: "nat \<Rightarrow> nat \<times> nat \<Rightarrow> nat \<times> nat \<Rightarrow> nat list \<Rightarrow> nat \<times> nat" where
  "longest_zeroes i longest current [] = longest"
| "longest_zeroes i longest current (g # gs) =
     (if g = 0 then
        (let current' = (if snd current = 0 then (i, 1) else (fst current, Suc (snd current)))
         in longest_zeroes (Suc i) (if snd longest < snd current' then current' else longest) current' gs)
      else longest_zeroes (Suc i) longest (0, 0) gs)"

fun join_groups :: "nat list \<Rightarrow> string" where
  "join_groups [] = []"
| "join_groups [g] = show_hex g"
| "join_groups (g # gs) = show_hex g @ '':'' @ join_groups gs"

definition show_ipv6 :: "u128 \<Rightarrow> string" where
  "show_ipv6 a =
     (let gs = segments a in
      if take 6 gs = [0, 0, 0, 0, 0, 65535] then ''::ffff:'' @ show_ipv4 (of_nat (unat a mod 2 ^ 32))
      else case longest_zeroes 0 (0, 0) (0, 0) gs of (start, n) \<Rightarrow>
             if 1 < n then join_groups (take start gs) @ ''::'' @ join_groups (drop (start + n) gs)
             else join_groups gs)"

end
