(* ===== verification/Resource_Pool.thy ===== *)
theory Resource_Pool
  imports Std_Net Work_Queue Config_Version
begin

text \<open>
  Pools of values that are handed out and returned: VLAN ids, VNIs, loopback addresses, partition
  keys (\<open>src/crates/api-db/src/resource_pool.rs\<close> and \<open>src/crates/api-model/src/resource_pool\<close>).

  The table \<open>resource_pool\<close> is a list of rows, with the unique key (name, value). A statement is a
  function of the rows. \<open>ORDER BY random()\<close> is an argument \<open>pick\<close>, and the rows that other
  transactions hold locked are the argument \<open>locked\<close>. The type \<open>T\<close> of a pool is a type variable with
  its \<open>ToString\<close> and \<open>FromStr\<close> as arguments. The abstract pool \<open>pool_spec\<close> knows the values and their
  holders only; the operations on the table refine it.
\<close>

section \<open>Definitions\<close>

datatype entry_state = Free | Allocated (owner: string) (entry_owner_type: string)

datatype value_type = IntegerType | Ipv4Type | Ipv6Type | Ipv6PrefixType

datatype owner_type = OwnerMachine | OwnerNetworkSegment | OwnerIBPartition | OwnerVpc | OwnerDpa

fun owner_type_to_string :: "owner_type \<Rightarrow> string" where
  "owner_type_to_string OwnerMachine = ''machine''"
| "owner_type_to_string OwnerNetworkSegment = ''network_segment''"
| "owner_type_to_string OwnerIBPartition = ''ib_partition''"
| "owner_type_to_string OwnerVpc = ''vpc''"
| "owner_type_to_string OwnerDpa = ''dpa''"

definition owner_type_from_str :: "string \<Rightarrow> string + owner_type" where
  "owner_type_from_str s =
     (if s = ''machine'' then Inr OwnerMachine
      else if s = ''network_segment'' then Inr OwnerNetworkSegment
      else if s = ''ib_partition'' then Inr OwnerIBPartition
      else if s = ''vpc'' then Inr OwnerVpc
      else Inl (''Unknown owner_type '' @ [CHR 0x27] @ s @ [CHR 0x27]))"

record resource_pool =
  pool_name :: string
  pool_value_type :: value_type

record 'd pool_row =
  pr_name :: string
  pr_value :: string
  pr_value_type :: value_type
  pr_state :: entry_state
  pr_state_version :: "'d config_version"
  pr_auto_assign :: bool
  pr_allocated :: "'d option"

type_synonym 'd pool_table = "'d pool_row list"

record pool_stats =
  used :: nat
  free :: nat
  auto_assign_used :: nat
  auto_assign_free :: nat
  non_auto_assign_used :: nat
  non_auto_assign_free :: nat

datatype pool_error =
    PoolEmpty
  | PoolParse string string string string string
  | PoolFailedPrecondition string
  | PoolRowNotFound

definition row_key :: "'d pool_row \<Rightarrow> string \<times> string" where
  "row_key r = (pr_name r, pr_value r)"

definition pool_keys_distinct :: "'d pool_table \<Rightarrow> bool" where
  "pool_keys_distinct t \<longleftrightarrow> distinct (map row_key t)"

subsection \<open>Populating\<close>

definition new_row :: "'d config_version \<Rightarrow> resource_pool \<Rightarrow> bool \<Rightarrow> string \<Rightarrow> 'd pool_row" where
  "new_row version pool auto v =
     \<lparr>pr_name = pool_name pool, pr_value = v, pr_value_type = pool_value_type pool, pr_state = Free,
      pr_state_version = version, pr_auto_assign = auto, pr_allocated = None\<rparr>"

fun insert_rows :: "'d pool_table \<Rightarrow> 'd pool_row list \<Rightarrow> 'd pool_table" where
  "insert_rows t [] = t"
| "insert_rows t (r # rs) = (if row_key r \<in> row_key ` set t then insert_rows t rs else insert_rows (t @ [r]) rs)"

definition populate ::
    "('v \<Rightarrow> string) \<Rightarrow> 'd config_version \<Rightarrow> resource_pool \<Rightarrow> 'd pool_table \<Rightarrow> 'v list \<Rightarrow> bool \<Rightarrow> 'd pool_table" where
  "populate to_string initial_version pool t all_values auto_assign =
     foldl (\<lambda>t vals. insert_rows t (map (\<lambda>v. new_row initial_version pool auto_assign (to_string v)) vals))
       t (chunks (BIND_LIMIT div 6) all_values)"

subsection \<open>Statistics\<close>

definition count_rows :: "('d pool_row \<Rightarrow> bool) \<Rightarrow> 'd pool_table \<Rightarrow> nat" where
  "count_rows P t = length (filter P t)"

definition stats :: "'d pool_table \<Rightarrow> string \<Rightarrow> pool_stats" where
  "stats t name =
     (let rows = filter (\<lambda>r. pr_name r = name) t;
          au = count_rows (\<lambda>r. pr_state r \<noteq> Free \<and> pr_auto_assign r) rows;
          af = count_rows (\<lambda>r. pr_state r = Free \<and> pr_auto_assign r) rows;
          nu = count_rows (\<lambda>r. pr_state r \<noteq> Free \<and> \<not> pr_auto_assign r) rows;
          nf = count_rows (\<lambda>r. pr_state r = Free \<and> \<not> pr_auto_assign r) rows
      in \<lparr>used = au + nu, free = af + nf, auto_assign_used = au, auto_assign_free = af,
          non_auto_assign_used = nu, non_auto_assign_free = nf\<rparr>)"

subsection \<open>Allocating and releasing\<close>

definition candidates ::
    "('d pool_row \<Rightarrow> bool) \<Rightarrow> 'd pool_table \<Rightarrow> string \<Rightarrow> string option \<Rightarrow> 'd pool_row list" where
  "candidates locked t name req =
     filter (\<lambda>r. pr_name r = name \<and> pr_state r = Free \<and> pr_auto_assign r = (req = None)
                \<and> (pr_auto_assign r \<or> req = Some (pr_value r)) \<and> \<not> locked r) t"

definition set_allocated :: "'d \<Rightarrow> string \<Rightarrow> owner_type \<Rightarrow> 'd pool_row \<Rightarrow> 'd pool_row" where
  "set_allocated clk owner_id own r =
     r\<lparr>pr_state := Allocated owner_id (owner_type_to_string own), pr_allocated := Some clk\<rparr>"

definition allocate ::
    "('v \<Rightarrow> string) \<Rightarrow> (string \<Rightarrow> string + 'v) \<Rightarrow> ('d pool_row \<Rightarrow> bool) \<Rightarrow> nat \<Rightarrow> 'd \<Rightarrow> resource_pool \<Rightarrow> 'd pool_table
       \<Rightarrow> owner_type \<Rightarrow> string \<Rightarrow> 'v option \<Rightarrow> 'd pool_table \<times> (pool_error + 'v)" where
  "allocate to_string parse locked pick clk pool t own owner_id requested_value =
     (let st = stats t (pool_name pool);
          auto_assign = (requested_value = None)
      in
      if auto_assign \<and> auto_assign_free st = 0 \<or> \<not> auto_assign \<and> non_auto_assign_free st = 0
      then (t, Inl PoolEmpty)
      else
        (let req = map_option to_string requested_value;
             found = candidates locked t (pool_name pool) req
         in if found = [] then
              (t, Inl (if auto_assign then PoolRowNotFound
                       else PoolFailedPrecondition (''`'' @ (case req of None \<Rightarrow> [] | Some v \<Rightarrow> v)
                              @ ''` not an available value for resource-pool `'' @ pool_name pool @ ''`'')))
            else
              (let row = found ! (pick mod length found);
                   t' = map (\<lambda>r. if row_key r = row_key row then set_allocated clk owner_id own r else r) t
               in (t', case parse (pr_value row) of
                         Inr v \<Rightarrow> Inr v
                       | Inl e \<Rightarrow> Inl (PoolParse e (pr_value row) (pool_name pool)
                                         (owner_type_to_string own) owner_id)))))"

definition release :: "('v \<Rightarrow> string) \<Rightarrow> resource_pool \<Rightarrow> 'd pool_table \<Rightarrow> 'v \<Rightarrow> 'd pool_table" where
  "release to_string pool t value =
     map (\<lambda>r. if pr_name r = pool_name pool \<and> pr_value r = to_string value
              then r\<lparr>pr_allocated := None, pr_state := Free\<rparr> else r) t"

definition find_value :: "'d pool_table \<Rightarrow> string \<Rightarrow> 'd pool_table" where
  "find_value t value = filter (\<lambda>r. pr_value r = value) t"

definition pool_has_rows :: "'d pool_table \<Rightarrow> string \<Rightarrow> bool" where
  "pool_has_rows t name \<longleftrightarrow> (\<exists>r \<in> set t. pr_name r = name)"

subsection \<open>Sequences of operations\<close>

text \<open>One call on a pool, with what the environment supplies to it, and sequences of calls. The result
  of a call is the value it hands out.\<close>

datatype ('d, 'v) pool_op =
    OpAllocate (op_locked: "'d pool_row \<Rightarrow> bool") nat 'd owner_type string "'v option"
  | OpRelease 'v
  | OpPopulate "'d config_version" "'v list" bool

fun apply_op ::
    "('v \<Rightarrow> string) \<Rightarrow> (string \<Rightarrow> string + 'v) \<Rightarrow> resource_pool \<Rightarrow> 'd pool_table \<Rightarrow> ('d, 'v) pool_op
       \<Rightarrow> 'd pool_table \<times> 'v option" where
  "apply_op to_string parse pool t (OpAllocate locked pick clk own owner_id req) =
     (case allocate to_string parse locked pick clk pool t own owner_id req of
        (t', Inr v) \<Rightarrow> (t', Some v) | (t', Inl _) \<Rightarrow> (t', None))"
| "apply_op to_string parse pool t (OpRelease v) = (release to_string pool t v, None)"
| "apply_op to_string parse pool t (OpPopulate version vs auto) = (populate to_string version pool t vs auto, None)"

fun run_ops :: "('t \<Rightarrow> 'o \<Rightarrow> 't \<times> 'r) \<Rightarrow> 't \<Rightarrow> 'o list \<Rightarrow> 't \<times> 'r list" where
  "run_ops step t [] = (t, [])"
| "run_ops step t (x # xs) =
     (case step t x of (t1, r) \<Rightarrow> (case run_ops step t1 xs of (t2, rs) \<Rightarrow> (t2, r # rs)))"

section \<open>What a pool promises\<close>

text \<open>The abstract pool: which values it has, and who holds them.\<close>

type_synonym pool_holders = "string \<rightharpoonup> entry_state"

inductive pool_spec :: "('v \<Rightarrow> string) \<Rightarrow> pool_holders \<Rightarrow> ('d, 'v) pool_op \<Rightarrow> 'v option \<Rightarrow> pool_holders \<Rightarrow> bool"
  for to_string where
  spec_allocate:
    "m (to_string v) = Some Free \<Longrightarrow> req = None \<or> req = Some v
     \<Longrightarrow> pool_spec to_string m (OpAllocate locked pick clk own owner_id req) (Some v)
           (m(to_string v \<mapsto> Allocated owner_id (owner_type_to_string own)))"
| spec_refuse: "pool_spec to_string m (OpAllocate locked pick clk own owner_id req) None m"
| spec_release:
    "pool_spec to_string m (OpRelease v) None
       (\<lambda>s. if s = to_string v \<and> m s \<noteq> None then Some Free else m s)"
| spec_populate:
    "pool_spec to_string m (OpPopulate version vs auto) None
       (\<lambda>s. if s \<in> to_string ` set vs \<and> m s = None then Some Free else m s)"

definition holders :: "string \<Rightarrow> 'd pool_table \<Rightarrow> pool_holders" where
  "holders name t s = map_option pr_state (find (\<lambda>r. row_key r = (name, s)) t)"

text \<open>The invariant: keys are distinct, the values of the pool print valid values, and a free row has no
  time of allocation.\<close>

definition pool_inv :: "('v \<Rightarrow> bool) \<Rightarrow> ('v \<Rightarrow> string) \<Rightarrow> resource_pool \<Rightarrow> 'd pool_table \<Rightarrow> bool" where
  "pool_inv valid to_string pool t \<longleftrightarrow>
     pool_keys_distinct t
     \<and> (\<forall>r \<in> set t. pr_name r = pool_name pool \<longrightarrow> pr_value r \<in> to_string ` {v. valid v})
     \<and> (\<forall>r \<in> set t. pr_state r = Free \<longrightarrow> pr_allocated r = None)"

fun valid_op :: "('v \<Rightarrow> bool) \<Rightarrow> ('d, 'v) pool_op \<Rightarrow> bool" where
  "valid_op valid (OpAllocate _ _ _ _ _ req) \<longleftrightarrow> (case req of None \<Rightarrow> True | Some v \<Rightarrow> valid v)"
| "valid_op valid (OpRelease v) \<longleftrightarrow> valid v"
| "valid_op valid (OpPopulate _ vs _) \<longleftrightarrow> list_all valid vs"

subsection \<open>The contract, and what follows from it\<close>

locale value_pool =
  fixes step :: "'t \<Rightarrow> 'o \<Rightarrow> 't \<times> 'v option"
    and inv :: "'t \<Rightarrow> bool" and okay :: "'o \<Rightarrow> bool"
    and held :: "'t \<Rightarrow> 'v \<Rightarrow> bool" and frees :: "'o \<Rightarrow> 'v \<Rightarrow> bool"
  assumes inv_step: "inv t \<Longrightarrow> okay x \<Longrightarrow> inv (fst (step t x))"
    and taken: "inv t \<Longrightarrow> okay x \<Longrightarrow> step t x = (t', Some v) \<Longrightarrow> \<not> held t v \<and> held t' v"
    and held_kept: "inv t \<Longrightarrow> okay x \<Longrightarrow> held t v \<Longrightarrow> \<not> frees x v \<Longrightarrow> held (fst (step t x)) v"
begin

lemma held_value_not_taken:
  "inv t \<Longrightarrow> list_all okay xs \<Longrightarrow> held t v \<Longrightarrow> run_ops step t xs = (t', rs)
   \<Longrightarrow> j < length xs \<Longrightarrow> rs ! j = Some v \<Longrightarrow> \<exists>k < j. frees (xs ! k) v"
proof (induction xs arbitrary: t t' rs j)
  case (Cons x xs)
  obtain t1 r where s: "step t x = (t1, r)" by fastforce
  obtain t2 rs' where r: "run_ops step t1 xs = (t2, rs')" by fastforce
  have rs: "rs = r # rs'" using Cons.prems(4) s r by simp
  have i: "inv t1" using inv_step [of t x] Cons.prems s by simp
  show ?case
  proof (cases j)
    case 0
    with Cons.prems s rs taken [of t x t1 v] show ?thesis by simp
  next
    case (Suc j')
    show ?thesis
    proof (cases "frees x v")
      case True
      with Suc show ?thesis by (intro exI [of _ 0]) simp
    next
      case False
      with held_kept [of t x v] Cons.prems s have "held t1 v" by simp
      from Cons.IH [OF i _ this r, of j'] Cons.prems Suc rs obtain k where "k < j'" "frees (xs ! k) v" by auto
      with Suc show ?thesis by (intro exI [of _ "Suc k"]) simp
    qed
  qed
qed simp

lemma taken_once:
  "inv t \<Longrightarrow> list_all okay xs \<Longrightarrow> run_ops step t xs = (t', rs) \<Longrightarrow> i < j \<Longrightarrow> j < length xs
   \<Longrightarrow> rs ! i = Some v \<Longrightarrow> rs ! j = Some v \<Longrightarrow> \<exists>k. i < k \<and> k < j \<and> frees (xs ! k) v"
proof (induction xs arbitrary: t t' rs i j)
  case (Cons x xs)
  obtain t1 r where s: "step t x = (t1, r)" by fastforce
  obtain t2 rs' where r: "run_ops step t1 xs = (t2, rs')" by fastforce
  have rs: "rs = r # rs'" using Cons.prems(3) s r by simp
  have v: "inv t1" using inv_step [of t x] Cons.prems s by simp
  obtain j' where j: "j = Suc j'" using Cons.prems(4) by (cases j) auto
  show ?case
  proof (cases i)
    case 0
    with Cons.prems s rs have "held t1 v" using taken [of t x t1 v] by simp
    from held_value_not_taken [OF v _ this r, of j'] Cons.prems rs j
    obtain k where "k < j'" "frees (xs ! k) v" by auto
    with 0 j show ?thesis by (intro exI [of _ "Suc k"]) simp
  next
    case (Suc i')
    from Cons.IH [OF v _ r, of i' j'] Cons.prems rs j Suc
    obtain k where "i' < k" "k < j'" "frees (xs ! k) v" by auto
    with Suc j show ?thesis by (intro exI [of _ "Suc k"]) simp
  qed
qed simp

end

section \<open>Lemmas\<close>

subsection \<open>Rows\<close>

lemma row_key_eq_iff: "pool_keys_distinct t \<Longrightarrow> r \<in> set t \<Longrightarrow> r' \<in> set t \<Longrightarrow> row_key r = row_key r' \<longleftrightarrow> r = r'"
  by (auto simp: pool_keys_distinct_def distinct_map inj_on_def)

lemma map_keeps_keys: "(\<And>r. row_key (f r) = row_key r) \<Longrightarrow> map row_key (map f t) = map row_key t"
  by simp

lemma row_key_set_allocated [simp]: "row_key (set_allocated clk i own r) = row_key r"
  by (simp add: row_key_def set_allocated_def)

lemma pr_state_set_allocated [simp]:
  "pr_state (set_allocated clk i own r) = Allocated i (owner_type_to_string own)"
  by (simp add: set_allocated_def)

lemma holders_Some_iff:
  "pool_keys_distinct t \<Longrightarrow> holders name t s = Some st \<longleftrightarrow> (\<exists>r \<in> set t. row_key r = (name, s) \<and> pr_state r = st)"
  by (induction t) (auto simp: holders_def pool_keys_distinct_def, metis image_eqI)

lemma holders_None_iff: "holders name t s = None \<longleftrightarrow> (name, s) \<notin> row_key ` set t"
  by (auto simp: holders_def find_None_iff image_iff)

lemma holders_map:
  assumes "\<And>r. row_key (f r) = row_key r"
  shows "holders name (map f t) s = map_option (\<lambda>r. pr_state (f r)) (find (\<lambda>r. row_key r = (name, s)) t)"
  using assms by (induction t) (auto simp: holders_def)

subsection \<open>Allocation\<close>

abbreviation allocated_table ::
    "'d \<Rightarrow> string \<Rightarrow> owner_type \<Rightarrow> 'd pool_row \<Rightarrow> 'd pool_table \<Rightarrow> 'd pool_table" where
  "allocated_table clk i own row t \<equiv> map (\<lambda>r. if row_key r = row_key row then set_allocated clk i own r else r) t"

lemma stats_free_zero:
  "auto_assign_free (stats t name) = 0 \<longleftrightarrow> (\<forall>r \<in> set t. pr_name r = name \<and> pr_state r = Free \<longrightarrow> \<not> pr_auto_assign r)"
  "non_auto_assign_free (stats t name) = 0 \<longleftrightarrow> (\<forall>r \<in> set t. pr_name r = name \<and> pr_state r = Free \<longrightarrow> pr_auto_assign r)"
  by (auto simp: stats_def Let_def count_rows_def filter_empty_conv)

lemma candidates_iff:
  "r \<in> set (candidates locked t name req) \<longleftrightarrow>
     r \<in> set t \<and> pr_name r = name \<and> pr_state r = Free \<and> pr_auto_assign r = (req = None)
       \<and> (req = None \<or> req = Some (pr_value r)) \<and> \<not> locked r"
  by (auto simp: candidates_def)

lemma allocate_found:
  assumes "candidates locked t (pool_name pool) (map_option to_string req) \<noteq> []"
  obtains row where "row \<in> set (candidates locked t (pool_name pool) (map_option to_string req))"
    "allocate to_string parse locked pick clk pool t own i req =
       (allocated_table clk i own row t,
        map_err (\<lambda>e. PoolParse e (pr_value row) (pool_name pool) (owner_type_to_string own) i) (parse (pr_value row)))"
proof -
  let ?c = "candidates locked t (pool_name pool) (map_option to_string req)"
  let ?row = "?c ! (pick mod length ?c)"
  have row: "?row \<in> set ?c" using assms by (intro nth_mem mod_less_divisor) simp
  then have "\<not> (req = None \<and> auto_assign_free (stats t (pool_name pool)) = 0
               \<or> req \<noteq> None \<and> non_auto_assign_free (stats t (pool_name pool)) = 0)"
    unfolding stats_free_zero candidates_iff by auto
  with assms have "allocate to_string parse locked pick clk pool t own i req =
       (allocated_table clk i own ?row t,
        map_err (\<lambda>e. PoolParse e (pr_value ?row) (pool_name pool) (owner_type_to_string own) i) (parse (pr_value ?row)))"
    by (auto simp: allocate_def Let_def split: sum.splits)
  with row show ?thesis by (rule that)
qed

lemma allocate_not_found:
  assumes "candidates locked t (pool_name pool) (map_option to_string req) = []"
  shows "\<exists>e. allocate to_string parse locked pick clk pool t own i req = (t, Inl e)"
  using assms by (simp add: allocate_def Let_def)

lemma allocate_InrE:
  assumes "allocate to_string parse locked pick clk pool t own i req = (t', Inr v)"
  obtains row where "row \<in> set (candidates locked t (pool_name pool) (map_option to_string req))"
    "t' = allocated_table clk i own row t" "parse (pr_value row) = Inr v"
proof (cases "candidates locked t (pool_name pool) (map_option to_string req) = []")
  case True
  from allocate_not_found [OF this, of parse pick clk own i] assms show ?thesis by simp
next
  case False
  obtain row where row: "row \<in> set (candidates locked t (pool_name pool) (map_option to_string req))"
    and eq: "allocate to_string parse locked pick clk pool t own i req =
       (allocated_table clk i own row t,
        map_err (\<lambda>e. PoolParse e (pr_value row) (pool_name pool) (owner_type_to_string own) i) (parse (pr_value row)))"
    by (rule allocate_found [OF False])
  have "parse (pr_value row) = Inr v" using eq assms by (cases "parse (pr_value row)") simp_all
  with row eq assms show ?thesis by (intro that [of row]) simp_all
qed

lemma allocate_InlE:
  assumes "allocate to_string parse locked pick clk pool t own i req = (t', Inl e)"
    and "\<And>r. r \<in> set t \<Longrightarrow> pr_name r = pool_name pool \<Longrightarrow> \<exists>v. parse (pr_value r) = Inr v"
  shows "t' = t" and "candidates locked t (pool_name pool) (map_option to_string req) = []"
proof -
  show c: "candidates locked t (pool_name pool) (map_option to_string req) = []"
  proof (rule ccontr)
    assume "candidates locked t (pool_name pool) (map_option to_string req) \<noteq> []"
    then obtain row where row: "row \<in> set (candidates locked t (pool_name pool) (map_option to_string req))"
      and eq: "allocate to_string parse locked pick clk pool t own i req =
       (allocated_table clk i own row t,
        map_err (\<lambda>e. PoolParse e (pr_value row) (pool_name pool) (owner_type_to_string own) i) (parse (pr_value row)))"
      by (rule allocate_found)
    from row assms(2) [of row] obtain v where "parse (pr_value row) = Inr v" by (auto simp: candidates_iff)
    with eq assms(1) show False by simp
  qed
  from allocate_not_found [OF this, of parse pick clk own i] assms(1) show "t' = t" by simp
qed

lemma pool_keys_allocated [simp]: "pool_keys_distinct (allocated_table clk i own row t) \<longleftrightarrow> pool_keys_distinct t"
  unfolding pool_keys_distinct_def by (subst map_keeps_keys) simp_all

lemma pool_keys_release [simp]: "pool_keys_distinct (release to_string pool t v) \<longleftrightarrow> pool_keys_distinct t"
  unfolding pool_keys_distinct_def release_def by (subst map_keeps_keys) (simp_all add: row_key_def)

lemma holders_allocated:
  assumes "row \<in> set t" "pr_name row = name"
  shows "holders name (allocated_table clk i own row t)
           = (holders name t)(pr_value row \<mapsto> Allocated i (owner_type_to_string own))"
proof
  fix s
  show "holders name (allocated_table clk i own row t) s
          = ((holders name t)(pr_value row \<mapsto> Allocated i (owner_type_to_string own))) s"
  proof (cases "find (\<lambda>r. row_key r = (name, s)) t")
    case None
    with assms have "s \<noteq> pr_value row" by (auto simp: find_None_iff row_key_def)
    with None show ?thesis by (subst holders_map) (auto simp: holders_def)
  next
    case (Some r)
    then have "row_key r = (name, s)" by (auto simp: find_Some_iff)
    moreover have "row_key row = (name, pr_value row)" using assms by (simp add: row_key_def)
    ultimately show ?thesis using Some by (subst holders_map) (auto simp: holders_def)
  qed
qed

lemma holders_release:
  "holders (pool_name pool) (release to_string pool t v) =
     (\<lambda>s. if s = to_string v \<and> holders (pool_name pool) t s \<noteq> None then Some Free else holders (pool_name pool) t s)"
proof
  fix s
  show "holders (pool_name pool) (release to_string pool t v) s =
     (if s = to_string v \<and> holders (pool_name pool) t s \<noteq> None then Some Free else holders (pool_name pool) t s)"
  proof (cases "find (\<lambda>r. row_key r = (pool_name pool, s)) t")
    case (Some r)
    then have "row_key r = (pool_name pool, s)" by (auto simp: find_Some_iff)
    with Some show ?thesis unfolding release_def by (subst holders_map) (auto simp: holders_def row_key_def)
  qed (unfold release_def, subst holders_map, auto simp: holders_def row_key_def)
qed

subsection \<open>Populating\<close>

lemma insert_rows_append: "insert_rows t (xs @ ys) = insert_rows (insert_rows t xs) ys"
  by (induction xs arbitrary: t) auto

lemma populate_eq:
  "populate to_string version pool t vs auto = insert_rows t (map (\<lambda>v. new_row version pool auto (to_string v)) vs)"
  unfolding populate_def by (rule fold_chunks) (simp_all add: BIND_LIMIT_def insert_rows_append)

lemma insert_rows_new: "\<exists>new. insert_rows t rs = t @ new \<and> set new \<subseteq> set rs"
proof (induction rs arbitrary: t)
  case (Cons r rs)
  show ?case
  proof (cases "row_key r \<in> row_key ` set t")
    case True
    with Cons [of t] show ?thesis by auto
  next
    case False
    with Cons [of "t @ [r]"] obtain new where "insert_rows (t @ [r]) rs = (t @ [r]) @ new" "set new \<subseteq> set rs" by auto
    with False show ?thesis by (intro exI [of _ "r # new"]) auto
  qed
qed simp

lemma insert_rows_keys: "row_key ` set (insert_rows t rs) = row_key ` set t \<union> row_key ` set rs"
  by (induction rs arbitrary: t) auto

lemma insert_rows_distinct: "pool_keys_distinct t \<Longrightarrow> pool_keys_distinct (insert_rows t rs)"
  by (induction rs arbitrary: t) (auto simp: pool_keys_distinct_def)

lemma insert_rows_present: "row_key ` set rs \<subseteq> row_key ` set t \<Longrightarrow> insert_rows t rs = t"
  by (induction rs) auto

lemma row_key_new_row [simp]: "row_key (new_row version pool auto s) = (pool_name pool, s)"
  by (simp add: new_row_def row_key_def)

lemma populate_adds:
  obtains new where "populate to_string version pool t vs auto = t @ new"
    "\<forall>r \<in> set new. \<exists>v \<in> set vs. r = new_row version pool auto (to_string v)"
proof -
  from insert_rows_new [of t "map (\<lambda>v. new_row version pool auto (to_string v)) vs"] obtain new
    where "populate to_string version pool t vs auto = t @ new"
      "set new \<subseteq> set (map (\<lambda>v. new_row version pool auto (to_string v)) vs)"
    by (auto simp: populate_eq)
  then show ?thesis by (intro that [of new]) auto
qed

lemma populate_distinct: "pool_keys_distinct t \<Longrightarrow> pool_keys_distinct (populate to_string version pool t vs auto)"
  by (simp add: populate_eq insert_rows_distinct)

lemma populate_keys:
  "row_key ` set (populate to_string version pool t vs auto)
     = row_key ` set t \<union> (\<lambda>v. (pool_name pool, to_string v)) ` set vs"
  by (simp add: populate_eq insert_rows_keys image_image)

lemma holders_append: "holders name (t @ u) s = (case holders name t s of None \<Rightarrow> holders name u s | Some x \<Rightarrow> Some x)"
  by (induction t) (auto simp: holders_def)

lemma holders_populate:
  "holders (pool_name pool) (populate to_string version pool t vs auto) =
     (\<lambda>s. if s \<in> to_string ` set vs \<and> holders (pool_name pool) t s = None then Some Free else holders (pool_name pool) t s)"
proof
  fix s
  obtain new where p: "populate to_string version pool t vs auto = t @ new"
    and new: "\<forall>r \<in> set new. \<exists>v \<in> set vs. r = new_row version pool auto (to_string v)"
    by (rule populate_adds [of to_string version pool t vs auto])
  show "holders (pool_name pool) (populate to_string version pool t vs auto) s =
     (if s \<in> to_string ` set vs \<and> holders (pool_name pool) t s = None then Some Free else holders (pool_name pool) t s)"
  proof (cases "holders (pool_name pool) t s")
    case None
    then have k: "(pool_name pool, s) \<in> row_key ` set new \<longleftrightarrow> s \<in> to_string ` set vs"
    proof -
      have "(pool_name pool, s) \<in> row_key ` set (t @ new) \<longleftrightarrow>
          (pool_name pool, s) \<in> row_key ` set t \<or> s \<in> to_string ` set vs"
        unfolding p [symmetric] populate_keys by auto
      with None show ?thesis unfolding holders_None_iff set_append image_Un by blast
    qed
    show ?thesis
    proof (cases "find (\<lambda>r. row_key r = (pool_name pool, s)) new")
      case n: None
      with k have "s \<notin> to_string ` set vs" by (auto simp: find_None_iff image_iff)
      with n None show ?thesis unfolding p by (simp add: holders_append) (simp add: holders_def)
    next
      case (Some r)
      then have "r \<in> set new" "row_key r = (pool_name pool, s)" by (auto simp: find_Some_iff)
      moreover from this(1) new obtain v where "r = new_row version pool auto (to_string v)" "v \<in> set vs" by blast
      ultimately have "pr_state r = Free" "s \<in> to_string ` set vs" by (auto simp: new_row_def row_key_def)
      with Some None show ?thesis unfolding p by (simp add: holders_append) (simp add: holders_def)
    qed
  qed (simp add: p holders_append)
qed

subsection \<open>The invariant\<close>

lemma pool_inv_allocated:
  assumes "pool_inv valid to_string pool t"
  shows "pool_inv valid to_string pool (allocated_table clk i own row t)"
  using assms by (auto simp: pool_inv_def set_allocated_def)

lemma release_rowE:
  assumes "r \<in> set (release to_string pool t v)"
  obtains r0 where "r0 \<in> set t" "pr_name r = pr_name r0" "pr_value r = pr_value r0"
    "r = r0 \<or> pr_state r = Free \<and> pr_allocated r = None"
  using assms by (auto simp: release_def split: if_splits)

lemma pool_inv_release:
  assumes "pool_inv valid to_string pool t"
  shows "pool_inv valid to_string pool (release to_string pool t v)"
proof -
  have "(pr_name r = pool_name pool \<longrightarrow> pr_value r \<in> to_string ` {v. valid v})
      \<and> (pr_state r = Free \<longrightarrow> pr_allocated r = None)" if "r \<in> set (release to_string pool t v)" for r
    using that
  proof (rule release_rowE)
    fix r0
    assume "r0 \<in> set t" "pr_name r = pr_name r0" "pr_value r = pr_value r0"
      "r = r0 \<or> pr_state r = Free \<and> pr_allocated r = None"
    moreover with assms have "pr_name r0 = pool_name pool \<longrightarrow> pr_value r0 \<in> to_string ` {v. valid v}"
      "pr_state r0 = Free \<longrightarrow> pr_allocated r0 = None" by (simp_all add: pool_inv_def)
    ultimately show ?thesis by metis
  qed
  with assms show ?thesis unfolding pool_inv_def by simp
qed

lemma pool_inv_populate:
  assumes "pool_inv valid to_string pool t" "list_all valid vs"
  shows "pool_inv valid to_string pool (populate to_string version pool t vs auto)"
proof -
  obtain new where p: "populate to_string version pool t vs auto = t @ new"
    and new: "\<forall>r \<in> set new. \<exists>v \<in> set vs. r = new_row version pool auto (to_string v)"
    by (rule populate_adds [of to_string version pool t vs auto])
  have "pool_keys_distinct (t @ new)" using assms populate_distinct p by (metis pool_inv_def)
  moreover have "pr_value r \<in> to_string ` {v. valid v} \<and> pr_allocated r = None" if "r \<in> set new" for r
    using new that assms(2) by (fastforce simp: new_row_def list_all_iff)
  ultimately show ?thesis using assms(1) unfolding p pool_inv_def by auto
qed

lemma pool_inv_parse:
  assumes "pool_inv valid to_string pool t" "\<And>v. valid v \<Longrightarrow> parse (to_string v) = Inr v"
    and "r \<in> set t" "pr_name r = pool_name pool"
  obtains v where "valid v" "pr_value r = to_string v" "parse (pr_value r) = Inr v"
  using assms by (auto simp: pool_inv_def)

lemma apply_op_inv:
  assumes inv: "pool_inv valid to_string pool t" and rt: "\<And>v. valid v \<Longrightarrow> parse (to_string v) = Inr v"
    and "valid_op valid x"
  shows "pool_inv valid to_string pool (fst (apply_op to_string parse pool t x))"
proof (cases x)
  case (OpAllocate locked pick clk own i req)
  show ?thesis
  proof (cases "allocate to_string parse locked pick clk pool t own i req")
    case (Pair t' res)
    show ?thesis
    proof (cases res)
      case (Inl e)
      with Pair have "t' = t" using allocate_InlE(1) pool_inv_parse [OF inv rt] by metis
      with Pair Inl inv OpAllocate show ?thesis by simp
    next
      case (Inr v)
      with Pair obtain row where "t' = allocated_table clk i own row t" by (auto elim: allocate_InrE)
      with Pair Inr inv OpAllocate show ?thesis by (simp add: pool_inv_allocated)
    qed
  qed
qed (use assms in \<open>auto simp: pool_inv_release pool_inv_populate\<close>)

lemma apply_op_spec:
  assumes inv: "pool_inv valid to_string pool t" and rt: "\<And>v. valid v \<Longrightarrow> parse (to_string v) = Inr v"
    and ok: "valid_op valid x" and eq: "apply_op to_string parse pool t x = (t', res)"
  shows "pool_spec to_string (holders (pool_name pool) t) x res (holders (pool_name pool) t')"
proof (cases x)
  case x: (OpAllocate locked pick clk own i req)
  obtain t1 r where a: "allocate to_string parse locked pick clk pool t own i req = (t1, r)" by fastforce
  show ?thesis
  proof (cases r)
    case (Inl e)
    with a have "t1 = t" using allocate_InlE(1) pool_inv_parse [OF inv rt] by metis
    with a Inl x eq show ?thesis by (auto intro: spec_refuse)
  next
    case (Inr v)
    with a obtain row where row: "row \<in> set (candidates locked t (pool_name pool) (map_option to_string req))"
      "t1 = allocated_table clk i own row t" "parse (pr_value row) = Inr v" by (auto elim: allocate_InrE)
    then have m: "row \<in> set t" "pr_name row = pool_name pool" "pr_state row = Free"
      "req = None \<or> map_option to_string req = Some (pr_value row)" by (auto simp: candidates_iff)
    obtain w where "valid w" "pr_value row = to_string w" "parse (pr_value row) = Inr w"
      using pool_inv_parse [OF inv rt m(1,2)] by blast
    with row have v: "valid v" "pr_value row = to_string v" by auto
    have "holders (pool_name pool) t (to_string v) = Some Free"
      using inv m v by (auto simp: pool_inv_def holders_Some_iff row_key_def)
    moreover have "req = None \<or> req = Some v"
    proof (cases req)
      case (Some w)
      with m ok x v have "valid w" "to_string w = to_string v" by auto
      with v rt Some show ?thesis by (metis Inr_inject)
    qed simp
    ultimately have "pool_spec to_string (holders (pool_name pool) t) x (Some v)
        ((holders (pool_name pool) t)(to_string v \<mapsto> Allocated i (owner_type_to_string own)))"
      unfolding x by (rule spec_allocate)
    moreover have "t' = t1" "res = Some v" using a Inr x eq by auto
    moreover have "holders (pool_name pool) t1
        = (holders (pool_name pool) t)(to_string v \<mapsto> Allocated i (owner_type_to_string own))"
      unfolding row(2) v(2) [symmetric] using m(1,2) by (rule holders_allocated)
    ultimately show ?thesis by simp
  qed
next
  case (OpRelease v)
  with eq have "t' = release to_string pool t v" "res = None" by auto
  moreover have "pool_spec to_string (holders (pool_name pool) t) (OpRelease v) None
      (holders (pool_name pool) (release to_string pool t v))"
    unfolding holders_release by (rule spec_release)
  ultimately show ?thesis using OpRelease by simp
next
  case (OpPopulate version vs auto)
  with eq have "t' = populate to_string version pool t vs auto" "res = None" by auto
  moreover have "pool_spec to_string (holders (pool_name pool) t) (OpPopulate version vs auto) None
      (holders (pool_name pool) (populate to_string version pool t vs auto))"
    unfolding holders_populate by (rule spec_populate)
  ultimately show ?thesis using OpPopulate by simp
qed

subsection \<open>The model meets the contract\<close>

definition held_in :: "('v \<Rightarrow> string) \<Rightarrow> resource_pool \<Rightarrow> 'd pool_table \<Rightarrow> 'v \<Rightarrow> bool" where
  "held_in to_string pool t v \<longleftrightarrow> holders (pool_name pool) t (to_string v) \<notin> {None, Some Free}"

definition releases :: "('v \<Rightarrow> string) \<Rightarrow> ('d, 'v) pool_op \<Rightarrow> 'v \<Rightarrow> bool" where
  "releases to_string x v \<longleftrightarrow> (\<exists>w. x = OpRelease w \<and> to_string w = to_string v)"

inductive_cases pool_spec_takenE: "pool_spec to_string m x (Some v) m'"

lemma pool_spec_kept:
  "pool_spec to_string m x r m' \<Longrightarrow> m (to_string v) = Some st \<Longrightarrow> st \<noteq> Free \<Longrightarrow> \<not> releases to_string x v
   \<Longrightarrow> m' (to_string v) = Some st"
  by (induction rule: pool_spec.induct) (auto simp: releases_def)

lemma resource_pool_is_value_pool:
  fixes to_string :: "'v \<Rightarrow> string"
  assumes rt: "\<And>v. valid v \<Longrightarrow> parse (to_string v) = Inr v"
  shows "value_pool (apply_op to_string parse pool :: 'd pool_table \<Rightarrow> _) (pool_inv valid to_string pool) (valid_op valid)
           (held_in to_string pool) (releases to_string)"
proof
  fix t :: "'d pool_table" and x :: "('d, 'v) pool_op" and v t'
  assume inv: "pool_inv valid to_string pool t" and ok: "valid_op valid x"
  show "pool_inv valid to_string pool (fst (apply_op to_string parse pool t x))"
    using inv rt ok by (rule apply_op_inv)
  note spec = apply_op_spec [OF inv rt ok, simplified]
  show "\<not> held_in to_string pool t v \<and> held_in to_string pool t' v"
    if "apply_op to_string parse pool t x = (t', Some v)"
    using spec [OF that] by (auto simp: held_in_def elim!: pool_spec_takenE)
  show "held_in to_string pool (fst (apply_op to_string parse pool t x)) v"
    if "held_in to_string pool t v" "\<not> releases to_string x v"
  proof -
    obtain t1 r where "apply_op to_string parse pool t x = (t1, r)" by fastforce
    with pool_spec_kept [OF spec [OF this], of v] that show ?thesis by (auto simp: held_in_def)
  qed
qed

text \<open>Pools of integers and of IPv4 addresses.\<close>

definition parse_i64 :: "string \<Rightarrow> string + int" where
  "parse_i64 s = map_err show_int_error (from_str_radix_i64 s 10)"

definition parse_ipv4_addr :: "string \<Rightarrow> string + u32" where
  "parse_ipv4_addr s = ok_or (parse_ipv4 s) ''invalid IPv4 address syntax''"

lemma parse_i64_show: "in_i64 i \<Longrightarrow> parse_i64 (show_int i) = Inr i"
  by (simp add: parse_i64_def from_str_radix_show_int)

interpretation int_pool: value_pool "apply_op show_int parse_i64 pool" "pool_inv in_i64 show_int pool" "valid_op in_i64"
    "held_in show_int pool" "releases show_int" for pool
  by (rule resource_pool_is_value_pool) (rule parse_i64_show)

interpretation ipv4_pool: value_pool "apply_op show_ipv4 parse_ipv4_addr pool" "pool_inv (\<lambda>_. True) show_ipv4 pool"
    "valid_op (\<lambda>_. True)" "held_in show_ipv4 pool" "releases show_ipv4" for pool
  by (rule resource_pool_is_value_pool) (simp add: parse_ipv4_addr_def parse_show_ipv4)

subsection \<open>Counting\<close>

lemma count_rows_changed:
  assumes "distinct t" "row \<in> set t"
  shows "count_rows P (map (\<lambda>r. if r = row then f r else r) t) + of_bool (P row) = count_rows P t + of_bool (P (f row))"
  using assms
proof (induction t)
  case (Cons r t)
  show ?case
  proof (cases "r = row")
    case True
    with Cons.prems have "map (\<lambda>r. if r = row then f r else r) t = t" by (intro map_idI) auto
    with True show ?thesis by (simp add: count_rows_def)
  next
    case False
    with Cons show ?thesis by (simp add: count_rows_def)
  qed
qed simp

lemma stats_used: "used (stats t name) = count_rows (\<lambda>r. pr_name r = name \<and> pr_state r \<noteq> Free) t"
  by (induction t) (auto simp: stats_def count_rows_def Let_def)

lemma stats_free: "free (stats t name) = count_rows (\<lambda>r. pr_name r = name \<and> pr_state r = Free) t"
  by (induction t) (auto simp: stats_def count_rows_def Let_def)

lemma allocated_table_one:
  assumes "pool_keys_distinct t" "row \<in> set t"
  shows "allocated_table clk i own row t = map (\<lambda>r. if r = row then set_allocated clk i own r else r) t"
  using row_key_eq_iff [OF assms(1) _ assms(2)] by (intro map_cong) auto

lemma allocated_row:
  assumes inv: "pool_inv valid to_string pool t" and rt: "\<And>v. valid v \<Longrightarrow> parse (to_string v) = Inr v"
    and a: "allocate to_string parse locked pick clk pool t own i req = (t', Inr v)"
  obtains row where "row \<in> set t" "pr_name row = pool_name pool" "pr_value row = to_string v" "pr_state row = Free"
    "\<not> locked row" "pr_auto_assign row = (req = None)" "req = None \<or> map_option to_string req = Some (to_string v)"
    "t' = map (\<lambda>r. if r = row then set_allocated clk i own r else r) t"
proof -
  from a obtain row where row: "row \<in> set (candidates locked t (pool_name pool) (map_option to_string req))"
    "t' = allocated_table clk i own row t" "parse (pr_value row) = Inr v" by (rule allocate_InrE)
  then have m: "row \<in> set t" "pr_name row = pool_name pool" by (auto simp: candidates_iff)
  obtain w where "valid w" "pr_value row = to_string w" "parse (pr_value row) = Inr w"
    using pool_inv_parse [OF inv rt m] by blast
  with row have "pr_value row = to_string v" by simp
  with row m inv show ?thesis
    by (intro that [of row]) (auto simp: candidates_iff pool_inv_def allocated_table_one)
qed

lemma release_restores:
  assumes inv: "pool_inv valid to_string pool t" and rt: "\<And>v. valid v \<Longrightarrow> parse (to_string v) = Inr v"
    and a: "allocate to_string parse locked pick clk pool t own i req = (t', Inr v)"
  shows "release to_string pool t' v = t"
proof -
  obtain row where row: "row \<in> set t" "pr_name row = pool_name pool" "pr_value row = to_string v" "pr_state row = Free"
    and t': "t' = map (\<lambda>r. if r = row then set_allocated clk i own r else r) t"
    using assms by (rule allocated_row)
  have d: "pool_keys_distinct t" and "pr_allocated row = None" using inv row by (auto simp: pool_inv_def)
  then have restored: "(set_allocated clk i own row)\<lparr>pr_allocated := None, pr_state := Free\<rparr> = row"
    using row(4) by (simp add: set_allocated_def)
  have "(pr_name r = pool_name pool \<and> pr_value r = to_string v) = (r = row)" if "r \<in> set t" for r
    using row_key_eq_iff [OF d that row(1)] row by (auto simp: row_key_def)
  with row restored show ?thesis unfolding release_def t' map_map
    by (intro map_idI) (auto simp: set_allocated_def)
qed

section \<open>Properties\<close>

text \<open>C20. A value that is handed out was free, not locked by another transaction, and is the one that was
  asked for if one was; afterwards exactly its row names the new owner, every other row is as before, and
  the statistics move by one from free to used.\<close>

theorem allocate_sound:
  assumes "pool_inv valid to_string pool t" and "\<And>v. valid v \<Longrightarrow> parse (to_string v) = Inr v"
    and "allocate to_string parse locked pick clk pool t own i req = (t', Inr v)"
  shows "\<exists>row \<in> set t. row_key row = (pool_name pool, to_string v) \<and> pr_state row = Free \<and> \<not> locked row
      \<and> pr_auto_assign row = (req = None) \<and> (req \<noteq> None \<longrightarrow> map_option to_string req = Some (to_string v))
      \<and> t' = map (\<lambda>r. if r = row then r\<lparr>pr_state := Allocated i (owner_type_to_string own), pr_allocated := Some clk\<rparr>
                      else r) t
      \<and> used (stats t' (pool_name pool)) = used (stats t (pool_name pool)) + 1
      \<and> free (stats t' (pool_name pool)) + 1 = free (stats t (pool_name pool))"
proof -
  obtain row where row: "row \<in> set t" "pr_name row = pool_name pool" "pr_value row = to_string v" "pr_state row = Free"
    "\<not> locked row" "pr_auto_assign row = (req = None)" "req = None \<or> map_option to_string req = Some (to_string v)"
    and t': "t' = map (\<lambda>r. if r = row then set_allocated clk i own r else r) t"
    using assms by (rule allocated_row)
  have d: "distinct t" using assms(1) by (auto simp: pool_inv_def pool_keys_distinct_def distinct_map)
  have n: "pr_name (set_allocated clk i own row) = pr_name row" by (simp add: set_allocated_def)
  have "used (stats t' (pool_name pool)) = used (stats t (pool_name pool)) + 1"
    unfolding stats_used t' using row n
      count_rows_changed [OF d row(1), of "\<lambda>r. pr_name r = pool_name pool \<and> pr_state r \<noteq> Free" "set_allocated clk i own"]
    by simp
  moreover have "free (stats t' (pool_name pool)) + 1 = free (stats t (pool_name pool))"
    unfolding stats_free t' using row n
      count_rows_changed [OF d row(1), of "\<lambda>r. pr_name r = pool_name pool \<and> pr_state r = Free" "set_allocated clk i own"]
    by simp
  ultimately show ?thesis using row t' unfolding set_allocated_def row_key_def by blast
qed

text \<open>C21. A call hands out a value exactly when the pool has a free row of the requested kind that no other
  transaction has locked. Otherwise it changes nothing, and the error says that the pool is empty exactly
  when it has no free row of that kind at all.\<close>

theorem allocate_complete:
  assumes inv: "pool_inv valid to_string pool t" and rt: "\<And>v. valid v \<Longrightarrow> parse (to_string v) = Inr v"
    and a: "allocate to_string parse locked pick clk pool t own i req = (t', res)"
  shows "case res of
      Inr v \<Rightarrow> \<exists>r \<in> set t. pr_name r = pool_name pool \<and> pr_state r = Free \<and> pr_auto_assign r = (req = None)
          \<and> (req = None \<or> map_option to_string req = Some (pr_value r)) \<and> \<not> locked r
    | Inl e \<Rightarrow> t' = t
        \<and> (\<nexists>r. r \<in> set t \<and> pr_name r = pool_name pool \<and> pr_state r = Free \<and> pr_auto_assign r = (req = None)
          \<and> (req = None \<or> map_option to_string req = Some (pr_value r)) \<and> \<not> locked r)
        \<and> (e = PoolEmpty \<longleftrightarrow>
             (\<nexists>r. r \<in> set t \<and> pr_name r = pool_name pool \<and> pr_state r = Free \<and> pr_auto_assign r = (req = None)))"
proof (cases res)
  case (Inr v)
  with a show ?thesis by (auto elim!: allocate_InrE simp: candidates_iff)
next
  case (Inl e)
  have c: "t' = t" "candidates locked t (pool_name pool) (map_option to_string req) = []"
    using allocate_InlE [OF a [unfolded Inl]] pool_inv_parse [OF inv rt] by metis+
  have "e = PoolEmpty \<longleftrightarrow> (req = None \<and> auto_assign_free (stats t (pool_name pool)) = 0
      \<or> req \<noteq> None \<and> non_auto_assign_free (stats t (pool_name pool)) = 0)"
    using a c(2) unfolding Inl by (auto simp: allocate_def Let_def split: if_splits)
  then show ?thesis using c(1) candidates_iff [of _ locked t "pool_name pool" "map_option to_string req", unfolded c(2)]
    unfolding Inl stats_free_zero by (cases req) auto
qed

text \<open>C3. In any sequence of allocations, releases and population of a pool, a value is handed out a second
  time only after a release of that value in between.\<close>

theorem no_double_allocation:
  assumes "pool_inv valid to_string pool t" and "\<And>v. valid v \<Longrightarrow> parse (to_string v) = Inr v"
    and "list_all (valid_op valid) xs" and "run_ops (apply_op to_string parse pool) t xs = (t', rs)"
    and "i < j" "j < length xs" "rs ! i = Some v" "rs ! j = Some v"
  shows "\<exists>k w. i < k \<and> k < j \<and> xs ! k = OpRelease w \<and> to_string w = to_string v"
  using value_pool.taken_once [OF resource_pool_is_value_pool [where valid = valid and parse = parse], of to_string pool t xs]
    assms unfolding releases_def by blast

text \<open>C8. Every operation on the table is a step of the abstract pool, which knows only the values of the
  pool and who holds them, and keeps the invariant of the table.\<close>

theorem pool_refines_spec:
  assumes "pool_inv valid to_string pool t" and "\<And>v. valid v \<Longrightarrow> parse (to_string v) = Inr v"
    and "valid_op valid x" and "apply_op to_string parse pool t x = (t', res)"
  shows "pool_spec to_string (holders (pool_name pool) t) x res (holders (pool_name pool) t')
           \<and> pool_inv valid to_string pool t'"
  using apply_op_spec [OF assms] apply_op_inv [OF assms(1-3)] assms(4) by simp

text \<open>C34. Releasing the value that was just handed out restores the table.\<close>

theorem release_after_allocate:
  assumes "pool_inv valid to_string pool t" and "\<And>v. valid v \<Longrightarrow> parse (to_string v) = Inr v"
    and "allocate to_string parse locked pick clk pool t own i req = (t', Inr v)"
  shows "release to_string pool t' v = t"
  using assms by (rule release_restores)

text \<open>C35. Populating a pool keeps every row there is, adds a free row for each value the pool does not have,
  and does nothing when it is repeated.\<close>

theorem populate_additive:
  assumes "pool_keys_distinct t"
  shows "\<exists>new. populate to_string version pool t vs auto = t @ new
      \<and> (\<forall>r \<in> set new. \<exists>v \<in> set vs. r = new_row version pool auto (to_string v))
      \<and> row_key ` set (t @ new) = row_key ` set t \<union> (\<lambda>v. (pool_name pool, to_string v)) ` set vs
      \<and> pool_keys_distinct (t @ new) \<and> populate to_string version pool (t @ new) vs auto = t @ new"
proof -
  obtain new where p: "populate to_string version pool t vs auto = t @ new"
    "\<forall>r \<in> set new. \<exists>v \<in> set vs. r = new_row version pool auto (to_string v)"
    by (rule populate_adds)
  moreover have k: "row_key ` set (t @ new) = row_key ` set t \<union> (\<lambda>v. (pool_name pool, to_string v)) ` set vs"
    unfolding p(1) [symmetric] by (rule populate_keys)
  moreover have "populate to_string version pool (t @ new) vs auto = t @ new"
    unfolding populate_eq by (rule insert_rows_present, unfold k) auto
  ultimately show ?thesis using populate_distinct [OF assms, of to_string version pool vs auto] by auto
qed

section \<open>Instances\<close>

text \<open>A pool of the VLAN ids 1 and 2, and a call that takes any of them.\<close>

definition vlan_pool :: resource_pool where
  "vlan_pool = \<lparr>pool_name = ''vlan-id'', pool_value_type = IntegerType\<rparr>"

definition first_version :: "int config_version" where
  "first_version = \<lparr>version_nr = 1, timestamp = 0\<rparr>"

definition vlan_rows :: "int pool_table" where
  "vlan_rows = [new_row first_version vlan_pool True ''1'', new_row first_version vlan_pool True ''2'']"

definition vlan_rows_taken :: "int pool_table" where
  "vlan_rows_taken = [set_allocated 7 ''segment'' OwnerNetworkSegment (new_row first_version vlan_pool True ''1''),
     new_row first_version vlan_pool True ''2'']"

lemma show_int_small: "show_int 1 = ''1''" "show_int 2 = ''2''"
  by code_simp+

lemma vlan_rows_inv: "pool_inv in_i64 show_int vlan_pool vlan_rows"
proof -
  have "in_i64 1" "in_i64 2" by (simp_all add: in_i64_def)
  with show_int_small have "''1'' \<in> show_int ` {v. in_i64 v}" "''2'' \<in> show_int ` {v. in_i64 v}"
    by (metis image_eqI mem_Collect_eq)+
  then show ?thesis
    by (simp add: pool_inv_def pool_keys_distinct_def vlan_rows_def row_key_def new_row_def)
qed

lemma vlan_allocate:
  "allocate show_int parse_i64 (\<lambda>_. False) 0 7 vlan_pool vlan_rows OwnerNetworkSegment ''segment'' None
     = (vlan_rows_taken, Inr 1)"
proof -
  have "parse_i64 ''1'' = Inr 1" using parse_i64_show [of 1] by (simp add: show_int_small in_i64_def)
  then show ?thesis
    by (simp add: allocate_def vlan_rows_def vlan_rows_taken_def vlan_pool_def new_row_def set_allocated_def
        stats_def count_rows_def candidates_def row_key_def Let_def)
qed

abbreviation take_vlan :: "(int, int) pool_op" where
  "take_vlan \<equiv> OpAllocate (\<lambda>_. False) 0 7 OwnerNetworkSegment ''segment'' None"

lemma vlan_release: "release show_int vlan_pool vlan_rows_taken 1 = vlan_rows"
  by (simp add: release_def vlan_rows_def vlan_rows_taken_def vlan_pool_def new_row_def set_allocated_def show_int_small)

theorem allocate_sound_witness:
  "used (stats vlan_rows_taken ''vlan-id'') = used (stats vlan_rows ''vlan-id'') + 1"
  using allocate_sound [OF vlan_rows_inv parse_i64_show vlan_allocate] by (auto simp: vlan_pool_def)

theorem allocate_complete_witness:
  "\<exists>r \<in> set vlan_rows. pr_name r = ''vlan-id'' \<and> pr_state r = Free"
  using allocate_complete [OF vlan_rows_inv parse_i64_show vlan_allocate] by (auto simp: vlan_pool_def)

theorem no_double_allocation_witness:
  "\<exists>k w. 0 < k \<and> k < 2 \<and> [take_vlan, OpRelease 1, take_vlan] ! k = OpRelease w"
proof -
  have "run_ops (apply_op show_int parse_i64 vlan_pool) vlan_rows [take_vlan, OpRelease 1, take_vlan]
      = (vlan_rows_taken, [Some 1, None, Some 1])"
    by (simp add: vlan_allocate vlan_release)
  from no_double_allocation [OF vlan_rows_inv parse_i64_show _ this, of 0 2 1] show ?thesis
    by (simp add: in_i64_def) blast
qed

theorem pool_refines_spec_witness:
  "pool_spec show_int (holders ''vlan-id'' vlan_rows) take_vlan (Some 1) (holders ''vlan-id'' vlan_rows_taken)"
  using pool_refines_spec [OF vlan_rows_inv parse_i64_show, of take_vlan vlan_rows_taken "Some 1"]
  by (simp add: vlan_allocate) (simp add: vlan_pool_def)

theorem release_after_allocate_witness: "release show_int vlan_pool vlan_rows_taken 1 = vlan_rows"
  by (rule release_after_allocate [OF vlan_rows_inv parse_i64_show vlan_allocate])

theorem populate_additive_witness:
  "\<exists>new. populate show_int first_version vlan_pool vlan_rows [2, 3] True = vlan_rows @ new \<and> pool_keys_distinct (vlan_rows @ new)"
  using populate_additive [of vlan_rows show_int first_version vlan_pool "[2, 3]" True] vlan_rows_inv
  by (auto simp: pool_inv_def)

end
