(* ===== verification/Pool_Definitions.thy ===== *)
theory Pool_Definitions
  imports Resource_Pool Ip_Prefix
begin

text \<open>
  How the pools are declared (\<open>define\<close>, \<open>reconcile_pool_defs\<close>, \<open>create_common_pools\<close> and the functions
  \<open>expand_*\<close> of \<open>src/crates/api-db/src/resource_pool.rs\<close>): a prefix or a list of ranges is expanded to
  values, and the pool is populated with them.

  The networks of the package \<open>ipnetwork\<close> are the record \<open>network_pkg\<close>, with the laws of \<open>net_api\<close> on its
  operations. The address types of the standard library are those of \<open>Std_Net\<close>.
\<close>

section \<open>Definitions\<close>

subsection \<open>Expanding pool definitions\<close>

text \<open>A panic unwinds through the callers and aborts the transaction, as an error does.\<close>

datatype define_error = InvalidArgument string | TooBig nat nat | UniqueViolation | Panicked

definition quoted :: "string \<Rightarrow> string" where
  "quoted s = [CHR 0x27] @ s @ [CHR 0x27]"

definition MAX_POOL_SIZE :: nat where
  "MAX_POOL_SIZE = 250000"

definition usize_or_max :: "nat \<Rightarrow> nat" where
  "usize_or_max n = (if n < 2 ^ 64 then n else 2 ^ 64 - 1)"

text \<open>A half-open range of words, the iterator \<open>start..end\<close>.\<close>

definition word_range :: "'a::len word \<Rightarrow> 'a word \<Rightarrow> 'a word list" where
  "word_range start stop = map of_nat [unat start ..< unat stop]"

definition expand_ip_prefix ::
    "(string \<Rightarrow> string + ('n4 + 'n6)) \<Rightarrow> ('n4, 32) ipnet_ops \<Rightarrow> string \<Rightarrow> string + u32 list" where
  "expand_ip_prefix parse_network o4 network =
     bind_res (parse_network network) (\<lambda>n.
       case n of
         Inl v4 \<Rightarrow> Inr (word_range (net_network o4 v4) (net_broadcast o4 v4))
       | Inr _ \<Rightarrow> Inl (''Invalid IPv4 network: '' @ network))"

definition expand_ip_range :: "string \<Rightarrow> string \<Rightarrow> string + u32 list" where
  "expand_ip_range start_s end_s =
     bind_res (ok_or (parse_ipv4 start_s) ''invalid IPv4 address syntax'') (\<lambda>start.
     bind_res (ok_or (parse_ipv4 end_s) ''invalid IPv4 address syntax'') (\<lambda>stop.
       Inr (word_range start stop)))"

definition expand_ipv6_prefix ::
    "(string \<Rightarrow> string + ('n4 + 'n6)) \<Rightarrow> ('n6, 128) ipnet_ops \<Rightarrow> string \<Rightarrow> define_error + u128 list" where
  "expand_ipv6_prefix parse_network o6 network =
     bind_res (map_err InvalidArgument (parse_network network)) (\<lambda>n.
       case n of
         Inl _ \<Rightarrow> Inl (InvalidArgument (''Invalid IPv6 network: '' @ network))
       | Inr v6 \<Rightarrow>
           (let host_bits = 128 - net_prefix_len o6 v6;
                num_addresses = (if host_bits < 128 then 2 ^ host_bits else 2 ^ 128 - 1)
            in if MAX_POOL_SIZE < num_addresses then Inl (TooBig (usize_or_max num_addresses) MAX_POOL_SIZE)
               else Inr (map of_nat [unat (net_network o6 v6) ..< Suc (unat (net_broadcast o6 v6))])))"

definition expand_ipv6_range :: "string \<Rightarrow> string \<Rightarrow> define_error + u128 list" where
  "expand_ipv6_range start_s end_s =
     bind_res (ok_or (parse_ipv6 start_s) (InvalidArgument ''invalid IPv6 address syntax'')) (\<lambda>start.
     bind_res (ok_or (parse_ipv6 end_s) (InvalidArgument ''invalid IPv6 address syntax'')) (\<lambda>stop.
       let count = unat stop - unat start in
       if MAX_POOL_SIZE < count then Inl (TooBig (usize_or_max count) MAX_POOL_SIZE)
       else Inr (word_range start stop)))"

text \<open>The addresses \<open>base + i * step\<close> are computed in 128 bits with overflow checks; the results are
  stated for the exact sums, and \<open>delegation_in_range\<close> shows that they stay below \<open>2 ^ 128\<close>.\<close>

fun collect_nets :: "('n, 128) ipnet_ops \<Rightarrow> nat \<Rightarrow> nat list \<Rightarrow> define_error + 'n list" where
  "collect_nets o6 l [] = Inr []"
| "collect_nets o6 l (a # as) =
     bind_res (ok_or (net_new o6 (of_nat a) l) (InvalidArgument ''invalid prefix'')) (\<lambda>net.
     bind_res (collect_nets o6 l as) (\<lambda>nets. Inr (net # nets)))"

definition expand_ipv6_prefix_delegation ::
    "(string \<Rightarrow> string + ('n4 + 'n6)) \<Rightarrow> ('n6, 128) ipnet_ops \<Rightarrow> string \<Rightarrow> nat \<Rightarrow> define_error + 'n6 list" where
  "expand_ipv6_prefix_delegation parse_network o6 parent delegate_len =
     bind_res (map_err InvalidArgument (parse_network parent)) (\<lambda>n.
       case n of
         Inl _ \<Rightarrow> Inl (InvalidArgument (''Invalid IPv6 network: '' @ parent))
       | Inr parent_net \<Rightarrow>
           (let parent_len = net_prefix_len o6 parent_net in
            if delegate_len \<le> parent_len then
              Inl (InvalidArgument (''Delegation prefix length /'' @ show_nat delegate_len
                @ '' must be longer than parent prefix length /'' @ show_nat parent_len))
            else if 128 < delegate_len then
              Inl (InvalidArgument (''Delegation prefix length /'' @ show_nat delegate_len @ '' exceeds maximum /128''))
            else
              (let sub_bits = delegate_len - parent_len;
                   count = (if sub_bits < 128 then 2 ^ sub_bits else 2 ^ 128 - 1)
               in if MAX_POOL_SIZE < count then Inl (TooBig (usize_or_max count) MAX_POOL_SIZE)
                  else (let step = 2 ^ (128 - delegate_len);
                            base = unat (net_network o6 parent_net)
                        in collect_nets o6 delegate_len (map (\<lambda>i. base + i * step) [0..<count])))))"

definition expand_ipv6_prefix_range ::
    "(string \<Rightarrow> string + 'n) \<Rightarrow> ('n, 128) ipnet_ops \<Rightarrow> string \<Rightarrow> string \<Rightarrow> define_error + 'n list" where
  "expand_ipv6_prefix_range parse_v6 o6 start_s end_s =
     bind_res (map_err InvalidArgument (parse_v6 start_s)) (\<lambda>start_net.
     bind_res (map_err InvalidArgument (parse_v6 end_s)) (\<lambda>end_net.
       let prefix_len = net_prefix_len o6 start_net in
       if net_prefix_len o6 end_net \<noteq> prefix_len then
         Inl (InvalidArgument (''Range endpoints have different prefix lengths: /'' @ show_nat prefix_len
           @ '' vs /'' @ show_nat (net_prefix_len o6 end_net)))
       else if net_addr o6 start_net \<noteq> net_network o6 start_net then
         Inl (InvalidArgument (''Start prefix '' @ start_s @ '' has host bits set''))
       else if net_addr o6 end_net \<noteq> net_network o6 end_net then
         Inl (InvalidArgument (''End prefix '' @ end_s @ '' has host bits set''))
       else
         (let start_addr = unat (net_network o6 start_net);
              end_addr = unat (net_network o6 end_net);
              step = 2 ^ (128 - prefix_len)
          in if prefix_len = 0 then Inl Panicked
             else if end_addr \<le> start_addr then
               Inl (InvalidArgument ''End prefix must be greater than start prefix'')
             else
               (let count = (end_addr - start_addr) div step in
                if MAX_POOL_SIZE < count then Inl (TooBig (usize_or_max count) MAX_POOL_SIZE)
                else collect_nets o6 prefix_len (map (\<lambda>i. start_addr + i * step) [0..<count])))))"

definition to_lower :: "char \<Rightarrow> char" where
  "to_lower c = (let n = (of_char c :: nat) in
     if 65 \<le> n \<and> n \<le> 90 \<or> 192 \<le> n \<and> n \<le> 222 \<and> n \<noteq> 215 then char_of (n + 32) else c)"

definition HEX_PRE :: string where
  "HEX_PRE = ''0x''"

fun trim_start_matches_hex :: "string \<Rightarrow> string" where
  "trim_start_matches_hex (a # b # cs) =
     (if [a, b] = HEX_PRE then trim_start_matches_hex cs else a # b # cs)"
| "trim_start_matches_hex cs = cs"

definition parse_int_range :: "string \<Rightarrow> int_error_kind + int" where
  "parse_int_range data =
     (let data = map to_lower data;
          base = (if take 2 data = HEX_PRE then 16 else 10);
          p = trim_start_matches_hex data
      in from_str_radix_i64 p base)"

definition expand_int_range :: "string \<Rightarrow> string \<Rightarrow> int_error_kind + int list" where
  "expand_int_range start_s end_s =
     bind_res (parse_int_range start_s) (\<lambda>start.
     bind_res (parse_int_range end_s) (\<lambda>stop. Inr [start .. stop - 1]))"

subsection \<open>Defining pools\<close>

record pool_range =
  rg_start :: string
  rg_end :: string
  rg_auto_assign :: bool

record pool_def =
  pd_ranges :: "pool_range list"
  pd_prefix :: "string option"
  pd_type :: value_type
  pd_delegate_prefix_len :: "nat option"

text \<open>What the functions use of the package \<open>ipnetwork\<close>.\<close>

record (overloaded) ('n4, 'n6) network_pkg =
  parse_network :: "string \<Rightarrow> string + ('n4 + 'n6)"
  parse_v6_network :: "string \<Rightarrow> string + 'n6"
  show_v6_network :: "'n6 \<Rightarrow> string"
  ops4 :: "('n4, 32) ipnet_ops"
  ops6 :: "('n6, 128) ipnet_ops"

definition checked_size :: "'v list \<Rightarrow> define_error + 'v list" where
  "checked_size values =
     (if MAX_POOL_SIZE < length values then Inl (TooBig (length values) MAX_POOL_SIZE) else Inr values)"

definition fill ::
    "('v \<Rightarrow> string) \<Rightarrow> 'd config_version \<Rightarrow> resource_pool \<Rightarrow> 'd pool_table \<Rightarrow> bool \<Rightarrow> define_error + 'v list
       \<Rightarrow> define_error + 'd pool_table" where
  "fill to_string version pool t auto values =
     bind_res values (\<lambda>vs. Inr (populate to_string version pool t vs auto))"

definition define_by_prefix ::
    "('n4, 'n6) network_pkg \<Rightarrow> 'd config_version \<Rightarrow> 'd pool_table \<Rightarrow> string \<Rightarrow> value_type \<Rightarrow> string \<Rightarrow> nat option
       \<Rightarrow> define_error + 'd pool_table" where
  "define_by_prefix pkg version t name pool_type prefix delegate_prefix_len =
     (let pool = \<lparr>pool_name = name, pool_value_type = pool_type\<rparr> in
      case pool_type of
        Ipv4Type \<Rightarrow>
          fill show_ipv4 version pool t True
            (bind_res (map_err InvalidArgument (expand_ip_prefix (parse_network pkg) (ops4 pkg) prefix)) checked_size)
      | Ipv6Type \<Rightarrow>
          fill show_ipv6 version pool t True (expand_ipv6_prefix (parse_network pkg) (ops6 pkg) prefix)
      | Ipv6PrefixType \<Rightarrow>
          fill (show_v6_network pkg) version pool t True
            (bind_res (ok_or delegate_prefix_len
                (InvalidArgument (''Pool type '' @ quoted ''ipv6prefix'' @ '' requires '' @ quoted ''delegate_prefix_len'')))
              (expand_ipv6_prefix_delegation (parse_network pkg) (ops6 pkg) prefix))
      | IntegerType \<Rightarrow> Inl (InvalidArgument (''Pool type '' @ quoted ''integer'' @ '' cannot take a prefix'')))"

definition define_by_range ::
    "('n4, 'n6) network_pkg \<Rightarrow> 'd config_version \<Rightarrow> 'd pool_table \<Rightarrow> string \<Rightarrow> value_type \<Rightarrow> pool_range
       \<Rightarrow> define_error + 'd pool_table" where
  "define_by_range pkg version t name pool_type rg =
     (let pool = \<lparr>pool_name = name, pool_value_type = pool_type\<rparr> in
      case pool_type of
        Ipv4Type \<Rightarrow>
          fill show_ipv4 version pool t (rg_auto_assign rg)
            (bind_res (map_err InvalidArgument (expand_ip_range (rg_start rg) (rg_end rg))) checked_size)
      | Ipv6Type \<Rightarrow>
          fill show_ipv6 version pool t (rg_auto_assign rg) (expand_ipv6_range (rg_start rg) (rg_end rg))
      | Ipv6PrefixType \<Rightarrow>
          fill (show_v6_network pkg) version pool t (rg_auto_assign rg)
            (expand_ipv6_prefix_range (parse_v6_network pkg) (ops6 pkg) (rg_start rg) (rg_end rg))
      | IntegerType \<Rightarrow>
          fill show_int version pool t (rg_auto_assign rg)
            (bind_res (map_err (\<lambda>e. InvalidArgument (show_int_error e))
                (expand_int_range (rg_start rg) (rg_end rg))) checked_size))"

fun define_ranges ::
    "('n4, 'n6) network_pkg \<Rightarrow> 'd config_version \<Rightarrow> 'd pool_table \<Rightarrow> string \<Rightarrow> value_type \<Rightarrow> pool_range list
       \<Rightarrow> define_error + 'd pool_table" where
  "define_ranges pkg version t name ty [] = Inr t"
| "define_ranges pkg version t name ty (r # rs) =
     bind_res (define_by_range pkg version t name ty r) (\<lambda>t'. define_ranges pkg version t' name ty rs)"

definition define_pool ::
    "('n4, 'n6) network_pkg \<Rightarrow> 'd config_version \<Rightarrow> 'd pool_table \<Rightarrow> string \<Rightarrow> pool_def \<Rightarrow> define_error + 'd pool_table" where
  "define_pool pkg version t name def =
     (if name = ''pkey'' then
        Inl (InvalidArgument ''pkey pool is deprecated. Use ib_fabrics.default.pkeys as replacement'')
      else case (pd_prefix def, pd_ranges def) of
             (None, []) \<Rightarrow>
               Inl (InvalidArgument (''Please provide one of '' @ quoted ''prefix'' @ '' or '' @ quoted ''ranges''))
           | (Some _, _ # _) \<Rightarrow>
               Inl (InvalidArgument (''Please provide only one of '' @ quoted ''prefix'' @ '' or '' @ quoted ''ranges''))
           | (Some prefix, []) \<Rightarrow>
               define_by_prefix pkg version t name (pd_type def) prefix (pd_delegate_prefix_len def)
           | (None, ranges) \<Rightarrow> define_ranges pkg version t name (pd_type def) ranges)"

fun define_all_from ::
    "('n4, 'n6) network_pkg \<Rightarrow> 'd config_version \<Rightarrow> 'd pool_table \<Rightarrow> (string \<times> pool_def) list
       \<Rightarrow> define_error + 'd pool_table" where
  "define_all_from pkg version t [] = Inr t"
| "define_all_from pkg version t ((name, def) # ps) =
     bind_res (define_pool pkg version t name def) (\<lambda>t'. define_all_from pkg version t' ps)"

subsection \<open>Reconciling declared pools\<close>

record 'd pool_db =
  pool_rows :: "'d pool_table"
  pool_defs :: "string \<rightharpoonup> pool_def"

text \<open>One turn of the loop. \<open>stored\<close> is read once before the loop. The insertion of a snapshot fails
  when one exists for the name.\<close>

definition insert_pool_def :: "'d pool_db \<Rightarrow> string \<Rightarrow> pool_def \<Rightarrow> define_error + 'd pool_db" where
  "insert_pool_def db name def =
     (if pool_defs db name = None then Inr (db\<lparr>pool_defs := (pool_defs db)(name \<mapsto> def)\<rparr>)
      else Inl UniqueViolation)"

definition reconcile_pool ::
    "('n4, 'n6) network_pkg \<Rightarrow> 'd config_version \<Rightarrow> (string \<rightharpoonup> pool_def) \<Rightarrow> 'd pool_db \<Rightarrow> string \<Rightarrow> pool_def
       \<Rightarrow> define_error + 'd pool_db" where
  "reconcile_pool pkg version stored db name def =
     (case (stored name, pool_has_rows (pool_rows db) name) of
        (Some _, _) \<Rightarrow> Inr db
      | (None, True) \<Rightarrow> insert_pool_def db name def
      | (None, False) \<Rightarrow>
          bind_res (define_pool pkg version (pool_rows db) name def) (\<lambda>t.
            insert_pool_def (db\<lparr>pool_rows := t\<rparr>) name def))"

fun reconcile_list ::
    "('n4, 'n6) network_pkg \<Rightarrow> 'd config_version \<Rightarrow> (string \<rightharpoonup> pool_def) \<Rightarrow> 'd pool_db \<Rightarrow> (string \<times> pool_def) list
       \<Rightarrow> define_error + 'd pool_db" where
  "reconcile_list pkg version stored db [] = Inr db"
| "reconcile_list pkg version stored db ((name, def) # ps) =
     bind_res (reconcile_pool pkg version stored db name def) (\<lambda>db'. reconcile_list pkg version stored db' ps)"

definition reconcile_pool_defs ::
    "('n4, 'n6) network_pkg \<Rightarrow> 'd config_version \<Rightarrow> 'd pool_db \<Rightarrow> (string \<times> pool_def) list \<Rightarrow> define_error + 'd pool_db" where
  "reconcile_pool_defs pkg version db declared = reconcile_list pkg version (pool_defs db) db declared"

subsection \<open>The pools of the application\<close>

definition LOOPBACK_IP :: string where "LOOPBACK_IP = ''lo-ip''"

definition VLANID :: string where "VLANID = ''vlan-id''"

definition VNI :: string where "VNI = ''vni''"

definition VPC_VNI :: string where "VPC_VNI = ''vpc-vni''"

definition ib_pkey_pool_name :: "string \<Rightarrow> string" where
  "ib_pkey_pool_name fabric = ''ib_fabrics.'' @ fabric @ ''.pkey''"

text \<open>The start-up check of \<open>create_common_pools\<close> over the mandatory pools.\<close>

fun check_mandatory :: "'d pool_table \<Rightarrow> string list \<Rightarrow> string + unit" where
  "check_mandatory t [] = Inr ()"
| "check_mandatory t (name # names) =
     (if free (stats t name) = 0
      then Inl (''Resource pool '' @ quoted name @ '' missing or full. Edit config file and restart.'')
      else check_mandatory t names)"

definition create_common_pools :: "'d pool_table \<Rightarrow> string + unit" where
  "create_common_pools t = check_mandatory t [LOOPBACK_IP, VLANID, VNI, VPC_VNI]"

section \<open>Lemmas\<close>

subsection \<open>Definitions only add free rows\<close>

definition extends :: "string \<Rightarrow> 'd pool_table \<Rightarrow> 'd pool_table \<Rightarrow> bool" where
  "extends name t t' \<longleftrightarrow> (\<exists>new. t' = t @ new \<and> (\<forall>r \<in> set new. pr_name r = name \<and> pr_state r = Free))"

lemma extends_refl [simp]: "extends name t t"
  by (simp add: extends_def)

lemma extends_trans: "extends name t u \<Longrightarrow> extends name u w \<Longrightarrow> extends name t w"
  unfolding extends_def by (elim exE conjE, rule exI) auto

lemma extends_populate: "pool_name pool = name \<Longrightarrow> extends name t (populate to_string version pool t vs auto)"
  by (rule populate_adds [of to_string version pool t vs auto]) (auto simp: extends_def new_row_def)

lemma fill_extends: "fill to_string version pool t auto values = Inr t' \<Longrightarrow> extends (pool_name pool) t t'"
  by (auto simp: fill_def bind_res_Inr_iff extends_populate)

lemma define_by_prefix_extends: "define_by_prefix pkg version t name ty prefix len = Inr t' \<Longrightarrow> extends name t t'"
  by (auto simp: define_by_prefix_def Let_def split: value_type.splits dest!: fill_extends)

lemma define_by_range_extends: "define_by_range pkg version t name ty rg = Inr t' \<Longrightarrow> extends name t t'"
  by (auto simp: define_by_range_def Let_def split: value_type.splits dest!: fill_extends)

lemma define_ranges_extends: "define_ranges pkg version t name ty rs = Inr t' \<Longrightarrow> extends name t t'"
  by (induction rs arbitrary: t)
     (auto simp: bind_res_Inr_iff dest: define_by_range_extends intro: extends_trans)

lemma define_pool_extends: "define_pool pkg version t name def = Inr t' \<Longrightarrow> extends name t t'"
  by (auto simp: define_pool_def split: if_splits option.splits list.splits
      dest: define_by_prefix_extends define_ranges_extends simp del: define_ranges.simps)

subsection \<open>Reconciling\<close>

definition seeds :: "(string \<rightharpoonup> pool_def) \<Rightarrow> (string \<times> pool_def) list \<Rightarrow> 'd pool_table \<Rightarrow> 'd pool_table \<Rightarrow> bool" where
  "seeds stored ps t t' \<longleftrightarrow> (\<exists>new. t' = t @ new \<and> (\<forall>r \<in> set new. pr_state r = Free \<and> pr_name r \<in> fst ` set ps
     \<and> stored (pr_name r) = None \<and> \<not> pool_has_rows t (pr_name r)))"

lemma insert_pool_def_Inr:
  "insert_pool_def db name def = Inr db' \<longleftrightarrow> pool_defs db name = None \<and> db' = db\<lparr>pool_defs := (pool_defs db)(name \<mapsto> def)\<rparr>"
  by (auto simp: insert_pool_def_def)

lemma reconcile_pool_cases:
  assumes "reconcile_pool pkg version stored db name def = Inr db'"
  obtains "stored name \<noteq> None" "db' = db"
  | t where "stored name = None" "pool_defs db name = None"
      "pool_has_rows (pool_rows db) name \<and> t = pool_rows db \<or> \<not> pool_has_rows (pool_rows db) name \<and> extends name (pool_rows db) t"
      "db' = db\<lparr>pool_rows := t, pool_defs := (pool_defs db)(name \<mapsto> def)\<rparr>"
  using assms
  by (auto simp: reconcile_pool_def insert_pool_def_Inr bind_res_Inr_iff split: option.splits bool.splits
      dest!: define_pool_extends)

lemma seeds_trans:
  assumes "extends name t u" "\<not> pool_has_rows t name \<or> u = t" "stored name = None" "seeds stored ps u w"
  shows "seeds stored ((name, def) # ps) t w"
proof -
  obtain a b where a: "u = t @ a" "\<forall>r \<in> set a. pr_name r = name \<and> pr_state r = Free"
    and b: "w = u @ b" "\<forall>r \<in> set b. pr_state r = Free \<and> pr_name r \<in> fst ` set ps
       \<and> stored (pr_name r) = None \<and> \<not> pool_has_rows u (pr_name r)"
    using assms by (auto simp: extends_def seeds_def)
  have "\<forall>r \<in> set (a @ b). pr_state r = Free \<and> pr_name r \<in> fst ` set ((name, def) # ps)
       \<and> stored (pr_name r) = None \<and> \<not> pool_has_rows t (pr_name r)"
    using a b assms(2,3) by (auto simp: pool_has_rows_def)
  with a b show ?thesis unfolding seeds_def by (intro exI [of _ "a @ b"]) simp
qed

lemma reconcile_list_seeds:
  "reconcile_list pkg version stored db ps = Inr db' \<Longrightarrow> seeds stored ps (pool_rows db) (pool_rows db')"
proof (induction ps arbitrary: db)
  case (Cons p ps)
  obtain name def where p: "p = (name, def)" by fastforce
  with Cons.prems obtain db1 where r: "reconcile_pool pkg version stored db name def = Inr db1"
    "reconcile_list pkg version stored db1 ps = Inr db'" by (auto simp: bind_res_Inr_iff)
  note ih = Cons.IH [OF r(2)]
  from r(1) show ?case
  proof (cases rule: reconcile_pool_cases)
    case 1
    with ih p show ?thesis by (auto simp: seeds_def)
  next
    case (2 t)
    with ih show ?thesis unfolding p by (intro seeds_trans [of name _ t]) auto
  qed
qed (simp add: seeds_def)

lemma reconcile_list_defs:
  "reconcile_list pkg version stored db ps = Inr db' \<Longrightarrow> (\<And>n. stored n \<noteq> None \<Longrightarrow> pool_defs db n \<noteq> None)
   \<Longrightarrow> pool_defs db' name = (case pool_defs db name of Some d \<Rightarrow> Some d | None \<Rightarrow> map_of ps name)"
proof (induction ps arbitrary: db)
  case (Cons p ps)
  obtain n def where p: "p = (n, def)" by fastforce
  with Cons.prems obtain db1 where r: "reconcile_pool pkg version stored db n def = Inr db1"
    "reconcile_list pkg version stored db1 ps = Inr db'" by (auto simp: bind_res_Inr_iff)
  from r(1) show ?case
  proof (cases rule: reconcile_pool_cases)
    case 1
    then obtain d where "pool_defs db n = Some d" using Cons.prems(2) [of n] by auto
    with 1 Cons.IH [OF r(2)] Cons.prems(2) p show ?thesis by (auto split: option.splits)
  next
    case (2 t)
    with Cons.IH [OF r(2)] Cons.prems(2) p show ?thesis by (auto split: option.splits)
  qed
qed (simp split: option.splits)

lemma reconcile_list_known:
  "(\<And>p. p \<in> set ps \<Longrightarrow> stored (fst p) \<noteq> None) \<Longrightarrow> reconcile_list pkg version stored db ps = Inr db"
proof (induction ps)
  case (Cons p ps)
  then have "stored (fst p) \<noteq> None" by simp
  with Cons show ?case by (cases p) (auto simp: reconcile_pool_def)
qed simp

subsection \<open>Integer ranges\<close>

lemma show_int_chars: "c \<in> set (show_int i) \<Longrightarrow> is_digit c \<or> c = CHR ''-''"
  using show_nat_digits [of "nat i"] show_nat_digits [of "nat (- i)"]
  by (auto simp: show_int_def list_all_iff split: if_splits)

lemma to_lower_digit: "is_digit c \<or> c = CHR ''-'' \<Longrightarrow> to_lower c = c"
  by (auto simp: to_lower_def is_digit_def)

lemma trim_start_matches_hex_id: "CHR ''x'' \<notin> set s \<Longrightarrow> trim_start_matches_hex s = s"
  by (induction s rule: trim_start_matches_hex.induct) (auto simp: HEX_PRE_def)

lemma parse_int_range_show:
  assumes "in_i64 i"
  shows "parse_int_range (show_int i) = Inr i"
proof -
  have x: "CHR ''x'' \<notin> set (show_int i)" using show_int_chars [of "CHR ''x''" i] by (auto simp: is_digit_def)
  then have "take 2 (show_int i) \<noteq> HEX_PRE" using in_set_takeD [of "CHR ''x''" 2 "show_int i"] by (auto simp: HEX_PRE_def)
  moreover have "map to_lower (show_int i) = show_int i"
    by (intro map_idI to_lower_digit show_int_chars)
  ultimately show ?thesis using assms x
    by (simp add: parse_int_range_def trim_start_matches_hex_id from_str_radix_show_int)
qed

subsection \<open>Delegated prefixes\<close>

lemma div_eq_iff_offset:
  fixes y d q :: nat
  assumes "0 < d"
  shows "y div d = q \<longleftrightarrow> (\<exists>i < d. y = q * d + i)"
proof
  assume "y div d = q"
  then have "y = q * d + y mod d" using div_mult_mod_eq [of y d] by simp
  with assms show "\<exists>i < d. y = q * d + i" by (intro exI [of _ "y mod d"]) simp
qed (use assms in auto)

lemma blocks_of_block: "dy (k + s) q = (\<Union>i < 2 ^ s. dy k (q * 2 ^ s + i))"
proof (rule set_eqI)
  fix x
  show "x \<in> dy (k + s) q \<longleftrightarrow> x \<in> (\<Union>i < 2 ^ s. dy k (q * 2 ^ s + i))"
    using div_eq_iff_offset [of "2 ^ s" "x div 2 ^ k" q] by (auto simp: power_add div_mult2_eq)
qed

lemma collect_nets_blocks:
  assumes "net_api (ops :: ('n, 128) ipnet_ops)" "l \<le> 128"
    and "\<And>r. r \<in> set rs \<Longrightarrow> r * 2 ^ (128 - l) < 2 ^ 128"
  shows "\<exists>nets. collect_nets ops l (map (\<lambda>r. r * 2 ^ (128 - l)) rs) = Inr nets
    \<and> map (\<lambda>n. (canonical ops n, host_bits ops n, block_no ops n)) nets = map (\<lambda>r. (True, 128 - l, r)) rs"
  using assms(3)
proof (induction rs)
  case (Cons r rs)
  then obtain nets where n: "collect_nets ops l (map (\<lambda>r. r * 2 ^ (128 - l)) rs) = Inr nets"
    "map (\<lambda>n. (canonical ops n, host_bits ops n, block_no ops n)) nets = map (\<lambda>r. (True, 128 - l, r)) rs"
    by auto
  have "unat (of_nat (r * 2 ^ (128 - l)) :: u128) = r * 2 ^ (128 - l)"
    using Cons.prems [of r] by (subst unat_of_nat) simp
  with net_api.new_block [OF assms(1), of l "of_nat (r * 2 ^ (128 - l))" r] assms(2) obtain m
    where "net_new ops (of_nat (r * 2 ^ (128 - l))) l = Some m" "canonical ops m" "host_bits ops m = 128 - l" "block_no ops m = r"
    by (auto simp del: of_nat_mult)
  with n show ?case by (simp del: of_nat_mult)
qed simp

lemma delegation_in_range:
  fixes ops :: "('n, 128) ipnet_ops"
  assumes "net_api ops" "net_prefix_len ops n < d" "d \<le> 128" "i < 2 ^ (d - net_prefix_len ops n)"
  shows "unat (net_network ops n) + i * 2 ^ (128 - d)
           = (block_no ops n * 2 ^ (d - net_prefix_len ops n) + i) * 2 ^ (128 - d)" (is ?sum)
    and "(block_no ops n * 2 ^ (d - net_prefix_len ops n) + i) * 2 ^ (128 - d) < 2 ^ 128" (is ?less)
proof -
  let ?p = "net_prefix_len ops n"
  let ?b = "block_no ops n * 2 ^ (d - ?p)"
  have h: "host_bits ops n = (d - ?p) + (128 - d)" using assms by (simp add: host_bits_def)
  show ?sum unfolding net_api.network_eq [OF assms(1)] h power_add by (simp add: algebra_simps)
  have "Suc (block_no ops n) \<le> 2 ^ ?p"
    using block_no_bound [of ops n] net_api.prefix_len_le [OF assms(1), of n] by simp
  then have "Suc (block_no ops n) * 2 ^ (d - ?p) \<le> 2 ^ ?p * 2 ^ (d - ?p)" by (rule mult_right_mono) simp
  also have "\<dots> = 2 ^ d" using assms by (simp add: power_add [symmetric])
  finally have "?b + i < 2 ^ d" using assms(4) by simp
  then have "(?b + i) * 2 ^ (128 - d) < 2 ^ d * 2 ^ (128 - d)" by simp
  also have "\<dots> = 2 ^ 128" using assms by (simp add: power_add [symmetric])
  finally show ?less .
qed

section \<open>Properties\<close>



text \<open>C28. Delegating prefixes of length \<open>d\<close> from a parent network yields \<open>2 ^ (d - p)\<close> networks of that
  length without host bits that are pairwise disjoint and together cover exactly the parent; the address
  computations stay within 128 bits.\<close>

theorem delegation_partitions:
  fixes pkg :: "('n4, 'n6) network_pkg"
  assumes api: "net_api (ops6 pkg)" and parent: "parse_network pkg parent = Inr (Inr net)"
    and d: "net_prefix_len (ops6 pkg) net < d" "d \<le> 128"
    and size: "2 ^ (d - net_prefix_len (ops6 pkg) net) \<le> MAX_POOL_SIZE"
  shows "\<exists>nets. expand_ipv6_prefix_delegation (parse_network pkg) (ops6 pkg) parent d = Inr nets
    \<and> length nets = 2 ^ (d - net_prefix_len (ops6 pkg) net)
    \<and> (\<forall>n \<in> set nets. canonical (ops6 pkg) n \<and> net_prefix_len (ops6 pkg) n = d)
    \<and> (\<Union>n \<in> set nets. covers (ops6 pkg) n) = covers (ops6 pkg) net
    \<and> (\<forall>i < length nets. \<forall>j < length nets. i \<noteq> j \<longrightarrow> covers (ops6 pkg) (nets ! i) \<inter> covers (ops6 pkg) (nets ! j) = {})"
proof -
  let ?o = "ops6 pkg"
  let ?s = "d - net_prefix_len ?o net"
  let ?rs = "map (\<lambda>i. block_no ?o net * 2 ^ ?s + i) [0 ..< 2 ^ ?s]"
  have "2 ^ ?s < (2 :: nat) ^ 18" using size by (simp add: MAX_POOL_SIZE_def)
  then have "?s < 18" by (rule power_less_imp_less_exp [rotated]) simp
  then have e: "expand_ipv6_prefix_delegation (parse_network pkg) ?o parent d
      = collect_nets ?o d (map (\<lambda>i. unat (net_network ?o net) + i * 2 ^ (128 - d)) [0 ..< 2 ^ ?s])"
    using parent d size by (simp add: expand_ipv6_prefix_delegation_def Let_def)
  have m: "map (\<lambda>i. unat (net_network ?o net) + i * 2 ^ (128 - d)) [0 ..< 2 ^ ?s] = map (\<lambda>r. r * 2 ^ (128 - d)) ?rs"
    unfolding map_map by (rule map_cong) (use delegation_in_range(1) [OF api d] in auto)
  have rng: "r * 2 ^ (128 - d) < 2 ^ 128" if "r \<in> set ?rs" for r
  proof -
    from that obtain i where "i < 2 ^ ?s" "r = block_no ?o net * 2 ^ ?s + i" unfolding set_map set_upt by (elim imageE) simp
    with delegation_in_range(2) [OF api d] show ?thesis by simp
  qed
  obtain nets where n: "expand_ipv6_prefix_delegation (parse_network pkg) ?o parent d = Inr nets"
    and k: "map (\<lambda>n. (canonical ?o n, host_bits ?o n, block_no ?o n)) nets = map (\<lambda>r. (True, 128 - d, r)) ?rs"
    using collect_nets_blocks [OF api d(2) rng] unfolding e m by blast
  from k have len: "length nets = 2 ^ ?s" using map_eq_imp_length_eq by fastforce
  have at: "canonical ?o (nets ! i) \<and> host_bits ?o (nets ! i) = 128 - d \<and> block_no ?o (nets ! i) = block_no ?o net * 2 ^ ?s + i"
    if "i < 2 ^ ?s" for i
    using arg_cong [OF k, of "\<lambda>xs. xs ! i"] that len by simp
  have c: "covers ?o (nets ! i) = dy (128 - d) (block_no ?o net * 2 ^ ?s + i)" if "i < 2 ^ ?s" for i
    using at [OF that] by (simp add: covers_def)
  have "(\<Union>n \<in> set nets. covers ?o n) = (\<Union>i < 2 ^ ?s. dy (128 - d) (block_no ?o net * 2 ^ ?s + i))"
    unfolding set_conv_nth len using c by auto
  also have "\<dots> = covers ?o net"
    using blocks_of_block [of "128 - d" ?s "block_no ?o net"] d by (simp add: covers_def host_bits_def)
  finally have u: "(\<Union>n \<in> set nets. covers ?o n) = covers ?o net" .
  have "canonical ?o n \<and> net_prefix_len ?o n = d" if "n \<in> set nets" for n
  proof -
    from that len obtain i where "i < 2 ^ ?s" "n = nets ! i" by (auto simp: in_set_conv_nth)
    with at [of i] net_api.prefix_len_le [OF api, of n] d show ?thesis unfolding host_bits_def by auto
  qed
  with n len u c show ?thesis by (intro exI [of _ nets]) auto
qed

section \<open>Instances\<close>

text \<open>A deployment that declares one pool of two VLAN ids on an empty database, with the reference networks.\<close>

definition ref_pkg :: "(32 ref_net, 128 ref_net) network_pkg" where
  "ref_pkg = \<lparr>parse_network = \<lambda>s. if s = ''::/126'' then Inr (Inr (mk_net 0 126)) else Inl ''invalid address'',
     parse_v6_network = \<lambda>s. if s = ''::/126'' then Inr (mk_net 0 126) else Inl ''invalid address'',
     show_v6_network = \<lambda>_. ''::/126'', ops4 = ref_net_ops, ops6 = ref_net_ops\<rparr>"

definition vlan_def :: pool_def where
  "vlan_def = \<lparr>pd_ranges = [\<lparr>rg_start = ''1'', rg_end = ''3'', rg_auto_assign = True\<rparr>], pd_prefix = None,
     pd_type = IntegerType, pd_delegate_prefix_len = None\<rparr>"

lemma reconcile_empty:
  "\<exists>db'. reconcile_pool_defs ref_pkg (\<lparr>version_nr = 1, timestamp = 0\<rparr> :: int config_version)
     \<lparr>pool_rows = [], pool_defs = Map.empty\<rparr> [(''vlan-id'', vlan_def)] = Inr db'"
proof -
  have "show_int 1 = ''1''" "show_int 3 = ''3''" by code_simp+
  then have "expand_int_range ''1'' ''3'' = Inr [1, 2]"
    using parse_int_range_show [of 1] parse_int_range_show [of 3]
    by (simp add: expand_int_range_def in_i64_def upto_rec1)
  then show ?thesis
    by (simp add: reconcile_pool_defs_def reconcile_pool_def pool_has_rows_def define_pool_def vlan_def_def
        define_by_range_def fill_def checked_size_def MAX_POOL_SIZE_def insert_pool_def_def)
qed



theorem delegation_partitions_witness:
  "\<exists>nets. expand_ipv6_prefix_delegation (parse_network ref_pkg) (ops6 ref_pkg) ''::/126'' 128 = Inr nets
    \<and> length nets = 4 \<and> (\<Union>n \<in> set nets. covers (ops6 ref_pkg) n) = covers (ops6 ref_pkg) (mk_net 0 126)"
proof -
  have "net_api (ops6 ref_pkg)" by (simp add: ref_pkg_def ref_nets.net_api_axioms)
  moreover have "parse_network ref_pkg ''::/126'' = Inr (Inr (mk_net 0 126))" by (simp add: ref_pkg_def)
  moreover have "net_prefix_len (ops6 ref_pkg) (mk_net 0 126) = 126" by (simp add: ref_pkg_def)
  ultimately show ?thesis
    using delegation_partitions [of ref_pkg "''::/126''" "mk_net 0 126" 128] by (auto simp: MAX_POOL_SIZE_def)
qed

end
