(* ===== verification/Ip_Allocator.thy ===== *)
theory Ip_Allocator
  imports Ip_Prefix
begin

text \<open>
  Finding free addresses and free sub-networks in a network segment
  (\<open>src/crates/api-db/src/ip_allocator.rs\<close>).

  The type \<open>IpNetwork\<close> of the package \<open>ipnetwork\<close> is a sum of two network types; the functions of the
  package that the code calls are the record \<open>ipnetwork_pkg\<close>, and the locale \<open>ip_networks\<close> states their
  documented behaviour. Unlike a prefix, a network may have host bits set. A panic (an overflowing
  subtraction, shift or addition of the checked build) is \<open>None\<close>.
\<close>

section \<open>Definitions\<close>

record (overloaded) ('n4, 'n6) ipnetwork_pkg =
  nw4 :: "('n4, 32) ipnet_ops"
  nw6 :: "('n6, 128) ipnet_ops"
  contains4 :: "'n4 \<Rightarrow> u32 \<Rightarrow> bool"
  contains6 :: "'n6 \<Rightarrow> u128 \<Rightarrow> bool"
  size4 :: "'n4 \<Rightarrow> u32 option"
  size6 :: "'n6 \<Rightarrow> u128 option"
  iter4 :: "'n4 \<Rightarrow> u32 list"
  iter6 :: "'n6 \<Rightarrow> u128 list"

type_synonym ('n4, 'n6) ip_network = "'n4 + 'n6"

text \<open>The methods of \<open>IpNetwork\<close>, by family.\<close>

definition plen :: "('n4, 'n6) ipnetwork_pkg \<Rightarrow> ('n4, 'n6) ip_network \<Rightarrow> nat" where
  "plen pkg n = (case n of Inl m \<Rightarrow> net_prefix_len (nw4 pkg) m | Inr m \<Rightarrow> net_prefix_len (nw6 pkg) m)"

definition ip_of :: "('n4, 'n6) ipnetwork_pkg \<Rightarrow> ('n4, 'n6) ip_network \<Rightarrow> ip_addr" where
  "ip_of pkg n = (case n of Inl m \<Rightarrow> V4Addr (net_addr (nw4 pkg) m) | Inr m \<Rightarrow> V6Addr (net_addr (nw6 pkg) m))"

definition network_of :: "('n4, 'n6) ipnetwork_pkg \<Rightarrow> ('n4, 'n6) ip_network \<Rightarrow> ip_addr" where
  "network_of pkg n = (case n of Inl m \<Rightarrow> V4Addr (net_network (nw4 pkg) m) | Inr m \<Rightarrow> V6Addr (net_network (nw6 pkg) m))"

definition broadcast_of :: "('n4, 'n6) ipnetwork_pkg \<Rightarrow> ('n4, 'n6) ip_network \<Rightarrow> ip_addr" where
  "broadcast_of pkg n =
     (case n of Inl m \<Rightarrow> V4Addr (net_broadcast (nw4 pkg) m) | Inr m \<Rightarrow> V6Addr (net_broadcast (nw6 pkg) m))"

definition contains_addr :: "('n4, 'n6) ipnetwork_pkg \<Rightarrow> ('n4, 'n6) ip_network \<Rightarrow> ip_addr \<Rightarrow> bool" where
  "contains_addr pkg n a =
     (case (n, a) of
        (Inl m, V4Addr x) \<Rightarrow> contains4 pkg m x
      | (Inr m, V6Addr x) \<Rightarrow> contains6 pkg m x
      | _ \<Rightarrow> False)"

definition iter_of :: "('n4, 'n6) ipnetwork_pkg \<Rightarrow> ('n4, 'n6) ip_network \<Rightarrow> ip_addr list" where
  "iter_of pkg n = (case n of Inl m \<Rightarrow> map V4Addr (iter4 pkg m) | Inr m \<Rightarrow> map V6Addr (iter6 pkg m))"

definition network_new :: "('n4, 'n6) ipnetwork_pkg \<Rightarrow> ip_addr \<Rightarrow> nat \<Rightarrow> ('n4, 'n6) ip_network option" where
  "network_new pkg a l =
     (case a of V4Addr x \<Rightarrow> map_option Inl (net_new (nw4 pkg) x l) | V6Addr x \<Rightarrow> map_option Inr (net_new (nw6 pkg) x l))"

fun addr_family :: "ip_addr \<Rightarrow> ip_address_family" where
  "addr_family (V4Addr _) = Ipv4"
| "addr_family (V6Addr _) = Ipv6"

subsection \<open>The allocator\<close>

datatype address_selection_strategy =
    NextAvailableIp | Automatic | NextAvailablePrefix nat | StaticAddress ip_addr

datatype alloc_error =
    InvalidPrefix
  | PrefixTooShort nat nat
  | GetAllocatedFailed alloc_error
  | NextAvailableFailed alloc_error
  | StaticNotAllocatable
  | PrefixExhausted ip_addr

record ('n4, 'n6) network_prefix =
  np_id :: u128
  np_segment_id :: u128
  np_prefix :: "('n4, 'n6) ip_network"
  np_gateway :: "ip_addr option"
  np_num_reserved :: int
  np_vpc_prefix_id :: "u128 option"
  np_vpc_prefix :: "('n4, 'n6) ip_network option"
  np_svi_ip :: "ip_addr option"
  np_num_free_ips :: nat

record ('n4, 'n6) alloc_prefix =
  ap_id :: u128
  ap_prefix :: "('n4, 'n6) ip_network"
  ap_gateway :: "ip_addr option"
  ap_num_reserved :: int

record ('n4, 'n6) ip_allocator =
  al_prefixes :: "('n4, 'n6) alloc_prefix list"
  al_used_ips :: "('n4, 'n6) ip_network list"
  al_strategy :: address_selection_strategy

text \<open>\<open>used_prefixes\<close> is the result of the resolver's query.\<close>

definition new_allocator ::
    "('n4, 'n6) network_prefix list \<Rightarrow> ('n4, 'n6) ip_network list \<Rightarrow> address_selection_strategy
       \<Rightarrow> ('n4, 'n6) ip_allocator" where
  "new_allocator prefixes used_prefixes strategy =
     \<lparr>al_prefixes = map (\<lambda>x. \<lparr>ap_id = np_id x, ap_prefix = np_prefix x, ap_gateway = np_gateway x,
                               ap_num_reserved = np_num_reserved x\<rparr>) prefixes,
      al_used_ips = used_prefixes, al_strategy = strategy\<rparr>"

text \<open>\<open>as usize\<close> of an \<open>i32\<close> extends the sign.\<close>

definition as_usize :: "int \<Rightarrow> nat" where
  "as_usize i = nat (i mod 2 ^ 64)"

definition host_net :: "('n4, 'n6) ipnetwork_pkg \<Rightarrow> ip_addr \<Rightarrow> alloc_error + ('n4, 'n6) ip_network" where
  "host_net pkg a = ok_or (network_new pkg a (interface_prefix_len (addr_family a))) InvalidPrefix"

definition reserves_network_broadcast :: "('n4, 'n6) ipnetwork_pkg \<Rightarrow> ('n4, 'n6) ip_network \<Rightarrow> bool" where
  "reserves_network_broadcast pkg n =
     (case n of Inl m \<Rightarrow> net_prefix_len (nw4 pkg) m < 31 | Inr m \<Rightarrow> net_prefix_len (nw6 pkg) m < 127)"

definition build_allocated_networks ::
    "('n4, 'n6) ipnetwork_pkg \<Rightarrow> ('n4, 'n6) alloc_prefix \<Rightarrow> ('n4, 'n6) ip_network list
       \<Rightarrow> alloc_error + ('n4, 'n6) ip_network list" where
  "build_allocated_networks pkg sp used_ips =
     bind_res (case ap_gateway sp of
                 Some g \<Rightarrow> if contains_addr pkg (ap_prefix sp) g then collect_res (host_net pkg) [g] else Inr []
               | None \<Rightarrow> Inr []) (\<lambda>gw.
     bind_res (collect_res (host_net pkg) (take (as_usize (ap_num_reserved sp)) (iter_of pkg (ap_prefix sp)))) (\<lambda>first.
     bind_res (if reserves_network_broadcast pkg (ap_prefix sp)
               then collect_res (host_net pkg) [network_of pkg (ap_prefix sp), broadcast_of pkg (ap_prefix sp)]
               else Inr []) (\<lambda>ends.
       Inr (gw @ first @ ends @ filter (\<lambda>a. contains_addr pkg (ap_prefix sp) (network_of pkg a)) used_ips))))"

text \<open>The ordered set of the fold is a list in the order of insertion: its readers only test whether some
  element qualifies, or add up the sizes.\<close>

definition keep_network ::
    "('n4, 'n6) ipnetwork_pkg \<Rightarrow> ('n4, 'n6) ip_network list \<Rightarrow> ('n4, 'n6) ip_network \<Rightarrow> ('n4, 'n6) ip_network list" where
  "keep_network pkg kept n =
     (if \<exists>e \<in> set kept. contains_addr pkg e (network_of pkg n) then kept else kept @ [n])"

definition collapse_allocated_networks ::
    "('n4, 'n6) ipnetwork_pkg \<Rightarrow> ('n4, 'n6) ip_network list \<Rightarrow> ('n4, 'n6) ip_network list" where
  "collapse_allocated_networks pkg nets = foldl (keep_network pkg) [] (sort_key (\<lambda>n. 128 - plen pkg n) nets)"

definition get_allocated ::
    "('n4, 'n6) ipnetwork_pkg \<Rightarrow> ('n4, 'n6) ip_allocator \<Rightarrow> ('n4, 'n6) alloc_prefix
       \<Rightarrow> alloc_error + ('n4, 'n6) ip_network list" where
  "get_allocated pkg al sp =
     bind_res (build_allocated_networks pkg sp (al_used_ips al)) (\<lambda>nets. Inr (collapse_allocated_networks pkg nets))"

definition get_network_size :: "('n4, 'n6) ipnetwork_pkg \<Rightarrow> ('n4, 'n6) ip_network \<Rightarrow> nat option" where
  "get_network_size pkg n =
     (case n of
        Inl m \<Rightarrow> map_option unat (size4 pkg m)
      | Inr m \<Rightarrow> map_option (\<lambda>s. min (unat s) (2 ^ 32 - 1)) (size6 pkg m))"

fun saturating_total :: "('n4, 'n6) ipnetwork_pkg \<Rightarrow> nat \<Rightarrow> ('n4, 'n6) ip_network list \<Rightarrow> nat option" where
  "saturating_total pkg acc [] = Some acc"
| "saturating_total pkg acc (n # ns) =
     (case get_network_size pkg n of None \<Rightarrow> None | Some s \<Rightarrow> saturating_total pkg (min (acc + s) (2 ^ 32 - 1)) ns)"

definition num_free :: "('n4, 'n6) ipnetwork_pkg \<Rightarrow> ('n4, 'n6) ip_allocator \<Rightarrow> (alloc_error + nat) option" where
  "num_free pkg al =
     (case al_prefixes al of
        [] \<Rightarrow> Some (Inr 0)
      | sp # _ \<Rightarrow>
          (case get_network_size pkg (ap_prefix sp) of
             None \<Rightarrow> None
           | Some total_ips \<Rightarrow>
               (case get_allocated pkg al sp of
                  Inl e \<Rightarrow> Some (Inl (GetAllocatedFailed e))
                | Inr allocated \<Rightarrow>
                    (case saturating_total pkg 0 allocated of
                       None \<Rightarrow> None | Some total_allocated \<Rightarrow> Some (Inr (total_ips - total_allocated))))))"

subsection \<open>The search\<close>

text \<open>For IPv4 the literal \<open>1\<close> is an \<open>i32\<close>, so \<open>1 << 31\<close> is negative and its conversion extends the sign.\<close>

definition get_network_size_details :: "('n4, 'n6) ip_network \<Rightarrow> nat \<Rightarrow> nat option" where
  "get_network_size_details n l =
     (case n of
        Inl _ \<Rightarrow> if 32 < l \<or> l = 0 then None else Some (unat (scast (push_bit (32 - l) 1 :: u32) :: u128))
      | Inr _ \<Rightarrow> if 128 < l \<or> l = 0 then None else Some (2 ^ (128 - l)))"

definition base_ip :: "('n4, 'n6) ipnetwork_pkg \<Rightarrow> ('n4, 'n6) ip_network \<Rightarrow> nat" where
  "base_ip pkg n = (case n of Inl m \<Rightarrow> unat (net_network (nw4 pkg) m) | Inr m \<Rightarrow> unat (net_network (nw6 pkg) m))"

definition broadcast_ip :: "('n4, 'n6) ipnetwork_pkg \<Rightarrow> ('n4, 'n6) ip_network \<Rightarrow> nat" where
  "broadcast_ip pkg n = (case n of Inl m \<Rightarrow> unat (net_broadcast (nw4 pkg) m) | Inr m \<Rightarrow> unat (net_broadcast (nw6 pkg) m))"

definition build_candidate_subnet ::
    "('n4, 'n6) ipnetwork_pkg \<Rightarrow> ('n4, 'n6) ip_network \<Rightarrow> nat \<Rightarrow> nat \<Rightarrow> alloc_error + ('n4, 'n6) ip_network" where
  "build_candidate_subnet pkg n current l =
     ok_or (case n of
              Inl _ \<Rightarrow> map_option Inl (net_new (nw4 pkg) (of_nat current) l)
            | Inr _ \<Rightarrow> map_option Inr (net_new (nw6 pkg) (of_nat current) l)) InvalidPrefix"

definition is_allocated ::
    "('n4, 'n6) ipnetwork_pkg \<Rightarrow> ('n4, 'n6) ip_network list \<Rightarrow> ('n4, 'n6) ip_network \<Rightarrow> bool" where
  "is_allocated pkg nets c \<longleftrightarrow>
     (\<exists>a \<in> set nets. contains_addr pkg a (network_of pkg c) \<or> contains_addr pkg c (network_of pkg a))"

text \<open>The loop, from \<open>current\<close> to \<open>stop\<close> in steps of \<open>Suc step1\<close>.\<close>

function search ::
    "('n4, 'n6) ipnetwork_pkg \<Rightarrow> ('n4, 'n6) ip_network \<Rightarrow> nat \<Rightarrow> ('n4, 'n6) ip_network list \<Rightarrow> nat \<Rightarrow> nat \<Rightarrow> nat
       \<Rightarrow> (alloc_error + ('n4, 'n6) ip_network option) option" where
  "search pkg n l nets step1 stop current =
     (if current \<le> stop then
        (case build_candidate_subnet pkg n current l of
           Inl e \<Rightarrow> Some (Inl e)
         | Inr c \<Rightarrow>
             if \<not> is_allocated pkg nets c then Some (Inr (Some c))
             else if 2 ^ 128 \<le> current + Suc step1 then None
             else search pkg n l nets step1 stop (current + Suc step1))
      else Some (Inr None))"
  by auto
termination by (relation "measure (\<lambda>(_, _, _, _, _, stop, current). Suc stop - current)") auto

declare search.simps [simp del]

definition next_available_prefix ::
    "('n4, 'n6) ipnetwork_pkg \<Rightarrow> ('n4, 'n6) ip_network \<Rightarrow> nat \<Rightarrow> ('n4, 'n6) ip_network list
       \<Rightarrow> (alloc_error + ('n4, 'n6) ip_network option) option" where
  "next_available_prefix pkg n l nets =
     (if l \<le> plen pkg n then Some (Inl (PrefixTooShort l (plen pkg n)))
      else case get_network_size_details n l of
             None \<Rightarrow> None
           | Some step \<Rightarrow> search pkg n l nets (step - 1) (broadcast_ip pkg n) (base_ip pkg n))"

text \<open>One turn of the iterator: it consumes the first prefix.\<close>

definition next_network ::
    "('n4, 'n6) ipnetwork_pkg \<Rightarrow> ('n4, 'n6) ip_allocator
       \<Rightarrow> (('n4, 'n6) ip_allocator \<times> (u128 \<times> (alloc_error + ('n4, 'n6) ip_network)) option) option" where
  "next_network pkg al =
     (case al_prefixes al of
        [] \<Rightarrow> Some (al, None)
      | sp # rest \<Rightarrow>
          (let al' = al\<lparr>al_prefixes := rest\<rparr>;
               failed = (\<lambda>e. Some (al', Some (ap_id sp, Inl e)));
               search_for = (\<lambda>l allocated.
                 case next_available_prefix pkg (ap_prefix sp) l allocated of
                   None \<Rightarrow> None
                 | Some (Inl e) \<Rightarrow> failed (NextAvailableFailed e)
                 | Some (Inr None) \<Rightarrow> failed (PrefixExhausted (ip_of pkg (ap_prefix sp)))
                 | Some (Inr (Some n)) \<Rightarrow> Some (al', Some (ap_id sp, Inr n)))
           in case get_allocated pkg al' sp of
                Inl e \<Rightarrow> failed (GetAllocatedFailed e)
              | Inr allocated \<Rightarrow>
                  (case al_strategy al of
                     NextAvailablePrefix l \<Rightarrow> search_for l allocated
                   | StaticAddress _ \<Rightarrow> failed StaticNotAllocatable
                   | _ \<Rightarrow> search_for (if isl (ap_prefix sp) then 32 else 128) allocated)))"

section \<open>Networks as blocks of addresses\<close>

definition width :: "('n4, 'n6) ip_network \<Rightarrow> nat" where
  "width n = (if isl n then 32 else 128)"

definition hb :: "('n4, 'n6) ipnetwork_pkg \<Rightarrow> ('n4, 'n6) ip_network \<Rightarrow> nat" where
  "hb pkg n = (case n of Inl m \<Rightarrow> host_bits (nw4 pkg) m | Inr m \<Rightarrow> host_bits (nw6 pkg) m)"

definition bk :: "('n4, 'n6) ipnetwork_pkg \<Rightarrow> ('n4, 'n6) ip_network \<Rightarrow> nat" where
  "bk pkg n = (case n of Inl m \<Rightarrow> block_no (nw4 pkg) m | Inr m \<Rightarrow> block_no (nw6 pkg) m)"

text \<open>An address with its family, and the set of addresses of a network.\<close>

definition cell :: "ip_addr \<Rightarrow> bool \<times> nat" where
  "cell a = (case a of V4Addr x \<Rightarrow> (True, unat x) | V6Addr x \<Rightarrow> (False, unat x))"

definition cells :: "('n4, 'n6) ipnetwork_pkg \<Rightarrow> ('n4, 'n6) ip_network \<Rightarrow> (bool \<times> nat) set" where
  "cells pkg n = {isl n} \<times> dy (hb pkg n) (bk pkg n)"

text \<open>The \<open>j\<close>-th block of prefix length \<open>l\<close> in the family of \<open>n\<close>, and the network that starts it.\<close>

definition block_cells :: "('n4, 'n6) ip_network \<Rightarrow> nat \<Rightarrow> nat \<Rightarrow> (bool \<times> nat) set" where
  "block_cells n l j = {isl n} \<times> dy (width n - l) j"

definition subnet :: "('n4, 'n6) ipnetwork_pkg \<Rightarrow> ('n4, 'n6) ip_network \<Rightarrow> nat \<Rightarrow> nat \<Rightarrow> ('n4, 'n6) ip_network" where
  "subnet pkg n l j =
     (case n of
        Inl _ \<Rightarrow> Inl (the (net_new (nw4 pkg) (of_nat (j * 2 ^ (32 - l))) l))
      | Inr _ \<Rightarrow> Inr (the (net_new (nw6 pkg) (of_nat (j * 2 ^ (128 - l))) l)))"

text \<open>No network of the list touches the block.\<close>

definition block_free ::
    "('n4, 'n6) ipnetwork_pkg \<Rightarrow> ('n4, 'n6) ip_network list \<Rightarrow> ('n4, 'n6) ip_network \<Rightarrow> nat \<Rightarrow> nat \<Rightarrow> bool" where
  "block_free pkg nets n l j \<longleftrightarrow> (\<forall>a \<in> set nets. cells pkg a \<inter> block_cells n l j = {})"

locale ip_networks =
  fixes pkg :: "('n4, 'n6) ipnetwork_pkg"
  assumes api4: "net_api (nw4 pkg)" and api6: "net_api (nw6 pkg)"
    and contains4_eq: "contains4 pkg n a \<longleftrightarrow> unat a \<in> covers (nw4 pkg) n"
    and contains6_eq: "contains6 pkg m b \<longleftrightarrow> unat b \<in> covers (nw6 pkg) m"
    and size4_eq: "0 < net_prefix_len (nw4 pkg) n \<Longrightarrow> size4 pkg n = Some (2 ^ host_bits (nw4 pkg) n)"
    and size6_eq: "0 < net_prefix_len (nw6 pkg) m \<Longrightarrow> size6 pkg m = Some (2 ^ host_bits (nw6 pkg) m)"
    and iter4_eq: "map unat (iter4 pkg n) = [unat (net_network (nw4 pkg) n) ..< Suc (unat (net_broadcast (nw4 pkg) n))]"
    and iter6_eq: "map unat (iter6 pkg m) = [unat (net_network (nw6 pkg) m) ..< Suc (unat (net_broadcast (nw6 pkg) m))]"
begin

lemma plen_le: "plen pkg n \<le> width n"
  using net_api.prefix_len_le [OF api4] net_api.prefix_len_le [OF api6]
  by (cases n) (auto simp: plen_def width_def)

lemma hb_eq: "hb pkg n = width n - plen pkg n"
  by (cases n) (auto simp: hb_def plen_def width_def host_bits_def)

lemma base_ip_eq: "base_ip pkg n = bk pkg n * 2 ^ hb pkg n"
  using net_api.network_eq [OF api4] net_api.network_eq [OF api6]
  by (cases n) (auto simp: base_ip_def bk_def hb_def)

lemma broadcast_ip_eq: "broadcast_ip pkg n = bk pkg n * 2 ^ hb pkg n + (2 ^ hb pkg n - 1)"
  using net_api.broadcast_eq [OF api4] net_api.broadcast_eq [OF api6]
  by (cases n) (auto simp: broadcast_ip_def bk_def hb_def)

lemma cell_network: "cell (network_of pkg n) = (isl n, bk pkg n * 2 ^ hb pkg n)"
  using net_api.network_eq [OF api4] net_api.network_eq [OF api6]
  by (cases n) (auto simp: cell_def network_of_def bk_def hb_def)

lemma contains_iff: "contains_addr pkg n a \<longleftrightarrow> cell a \<in> cells pkg n"
  by (cases n; cases a) (auto simp: contains_addr_def contains4_eq contains6_eq cells_def cell_def covers_def hb_def bk_def)

lemma network_in_cells: "cell (network_of pkg n) \<in> cells pkg n"
  by (simp add: cell_network cells_def)

lemma cells_laminar: "cells pkg a \<inter> cells pkg b = {} \<or> cells pkg a \<subseteq> cells pkg b \<or> cells pkg b \<subseteq> cells pkg a"
  using dy_laminar [of "hb pkg a" "bk pkg a" "hb pkg b" "bk pkg b"] by (auto simp: cells_def)

text \<open>Two networks overlap exactly when one of them contains the first address of the other.\<close>

lemma overlap_iff:
  "contains_addr pkg a (network_of pkg b) \<or> contains_addr pkg b (network_of pkg a) \<longleftrightarrow> cells pkg a \<inter> cells pkg b \<noteq> {}"
  unfolding contains_iff using network_in_cells [of a] network_in_cells [of b] cells_laminar [of a b] by blast

lemma is_allocated_iff: "is_allocated pkg nets c \<longleftrightarrow> (\<exists>a \<in> set nets. cells pkg a \<inter> cells pkg c \<noteq> {})"
  unfolding is_allocated_def overlap_iff ..

lemma new_at_block:
  fixes ops :: "('n, 'a::len) ipnet_ops"
  assumes "net_api ops" "l \<le> LENGTH('a)" "j * 2 ^ (LENGTH('a) - l) < 2 ^ LENGTH('a)"
  shows "\<exists>c. net_new ops (of_nat (j * 2 ^ (LENGTH('a) - l))) l = Some c \<and> host_bits ops c = LENGTH('a) - l
           \<and> block_no ops c = j \<and> net_prefix_len ops c = l \<and> canonical ops c"
proof -
  have "unat (of_nat (j * 2 ^ (LENGTH('a) - l)) :: 'a word) = j * 2 ^ (LENGTH('a) - l)"
    using assms(3) by (rule unat_of_nat_small)
  from net_api.new_block [OF assms(1,2) this] obtain c where
    "net_new ops (of_nat (j * 2 ^ (LENGTH('a) - l))) l = Some c" "canonical ops c"
    "host_bits ops c = LENGTH('a) - l" "block_no ops c = j" by blast
  moreover from this(3) have "net_prefix_len ops c = l"
    using net_api.prefix_len_le [OF assms(1), of c] assms(2) unfolding host_bits_def by linarith
  ultimately show ?thesis by blast
qed

lemma subnet_built:
  assumes "l \<le> width n" "j * 2 ^ (width n - l) < 2 ^ width n"
  shows "build_candidate_subnet pkg n (j * 2 ^ (width n - l)) l = Inr (subnet pkg n l j)
    \<and> cells pkg (subnet pkg n l j) = block_cells n l j \<and> plen pkg (subnet pkg n l j) = l"
proof (cases n)
  case (Inl m)
  with new_at_block [OF api4, of l j] assms show ?thesis
    by (auto simp: build_candidate_subnet_def subnet_def width_def cells_def block_cells_def hb_def bk_def plen_def
        simp del: of_nat_mult)
next
  case (Inr m)
  with new_at_block [OF api6, of l j] assms show ?thesis
    by (auto simp: build_candidate_subnet_def subnet_def width_def cells_def block_cells_def hb_def bk_def plen_def
        simp del: of_nat_mult)
qed

text \<open>The search visits the blocks from \<open>r\<close> up to \<open>e\<close> and takes the first free one. When the last
  block ends the address space of IPv6, stepping past it overflows.\<close>

lemma search_first_free:
  assumes l: "l \<le> width n" and e: "e * 2 ^ (width n - l) \<le> 2 ^ width n" and re: "r \<le> e" "0 < e"
  shows "search pkg n l nets (2 ^ (width n - l) - 1) (e * 2 ^ (width n - l) - 1) (r * 2 ^ (width n - l)) =
    (case find (block_free pkg nets n l) [r ..< e] of
       Some j \<Rightarrow> Some (Inr (Some (subnet pkg n l j)))
     | None \<Rightarrow> if r < e \<and> e * 2 ^ (width n - l) = 2 ^ 128 then None else Some (Inr None))"
  using re
proof (induction "e - r" arbitrary: r)
  case 0
  then have "r = e" by simp
  moreover have "0 < e * 2 ^ (width n - l)" using 0 by simp
  then have "\<not> e * 2 ^ (width n - l) \<le> e * 2 ^ (width n - l) - 1" by linarith
  ultimately show ?case by (subst search.simps) simp
next
  case (Suc d)
  let ?k = "2 ^ (width n - l) :: nat"
  have r: "r < e" using Suc.hyps(2) by simp
  then have sr: "Suc r * ?k \<le> e * ?k" by (intro mult_right_mono) auto
  have "0 < ?k" "Suc r * ?k = ?k + r * ?k" by simp_all
  with sr e have lt: "r * ?k \<le> e * ?k - 1" "r * ?k < 2 ^ width n" by linarith+
  note b = subnet_built [OF l lt(2)]
  have nx: "r * ?k + Suc (?k - 1) = Suc r * ?k" by simp
  show ?case
  proof (cases "block_free pkg nets n l r")
    case True
    with b have "\<not> is_allocated pkg nets (subnet pkg n l r)" by (simp add: is_allocated_iff block_free_def)
    with True b r lt show ?thesis by (subst search.simps) (simp add: upt_conv_Cons)
  next
    case False
    with b have a: "is_allocated pkg nets (subnet pkg n l r)" by (auto simp: is_allocated_iff block_free_def)
    have w: "2 ^ width n \<le> (2 :: nat) ^ 128" by (simp add: width_def)
    show ?thesis
    proof (cases "2 ^ 128 \<le> Suc r * ?k")
      case over: True
      with e w sr have top: "e * ?k = 2 ^ 128" "Suc r * ?k = e * ?k" by linarith+
      from top(2) have "Suc r = e" by (rule mult_right_cancel [THEN iffD1, rotated]) simp
      then have "[r ..< e] = [r]" by (simp add: upt_conv_Cons)
      moreover have "search pkg n l nets (?k - 1) (e * ?k - 1) (r * ?k) = None"
        using a b lt(1) over by (subst search.simps) (simp only: nx, simp)
      ultimately show ?thesis using False top r by simp
    next
      case under: False
      then have "search pkg n l nets (?k - 1) (e * ?k - 1) (r * ?k) = search pkg n l nets (?k - 1) (e * ?k - 1) (Suc r * ?k)"
        using a b lt(1) by (subst search.simps) (simp only: nx, simp)
      also have "\<dots> = (case find (block_free pkg nets n l) [Suc r ..< e] of
            Some j \<Rightarrow> Some (Inr (Some (subnet pkg n l j)))
          | None \<Rightarrow> if Suc r < e \<and> e * ?k = 2 ^ 128 then None else Some (Inr None))"
        using Suc.hyps r by (intro Suc.hyps(1)) auto
      also have "(Suc r < e \<and> e * ?k = 2 ^ 128) = (r < e \<and> e * ?k = 2 ^ 128)"
        using r under by (cases "Suc r = e") auto
      finally show ?thesis using False r by (simp add: upt_conv_Cons)
    qed
  qed
qed

end

text \<open>The step of the search.\<close>

lemma v4_step:
  assumes "k < 31"
  shows "unat (scast (push_bit k 1 :: u32) :: u128) = 2 ^ k"
proof -
  have "unat (2 ^ k :: u32) = 2 ^ k" using assms by (intro unat_two_power) simp
  then have "uint (2 ^ k :: u32) = 2 ^ k" by (metis of_nat_numeral of_nat_power of_nat_unat)
  moreover have "(2 :: int) ^ k < 2 ^ 31" using assms by (intro power_strict_increasing) auto
  moreover have "- (2 ^ 31) \<le> (2 :: int) ^ k" by (rule order_trans [of _ 0]) simp_all
  ultimately have "sint (2 ^ k :: u32) = 2 ^ k"
    unfolding sint_uint by (simp add: signed_take_bit_int_eq_self_iff)
  moreover have "unat (2 ^ k :: u128) = 2 ^ k" using assms by (intro unat_two_power) simp
  ultimately show ?thesis by (simp add: scast_eq)
qed

lemma step_size:
  assumes "0 < l" "l \<le> width n" "isl n \<longrightarrow> 2 \<le> l"
  shows "get_network_size_details n l = Some (2 ^ (width n - l))"
  using assms v4_step [of "32 - l"] by (cases n) (auto simp: get_network_size_details_def width_def)

context ip_networks
begin

lemma bk_bound: "bk pkg n < 2 ^ plen pkg n"
proof (cases n)
  case (Inl m)
  with block_no_bound [of "nw4 pkg" m] net_api.prefix_len_le [OF api4] show ?thesis by (simp add: bk_def plen_def)
next
  case (Inr m)
  with block_no_bound [of "nw6 pkg" m] net_api.prefix_len_le [OF api6] show ?thesis by (simp add: bk_def plen_def)
qed

lemma next_available_first_free:
  assumes l: "plen pkg n < l" "l \<le> width n" and quirk: "isl n \<longrightarrow> 2 \<le> l"
  shows "next_available_prefix pkg n l nets =
    (case find (block_free pkg nets n l) [bk pkg n * 2 ^ (l - plen pkg n) ..< Suc (bk pkg n) * 2 ^ (l - plen pkg n)] of
       Some j \<Rightarrow> Some (Inr (Some (subnet pkg n l j)))
     | None \<Rightarrow> if Suc (bk pkg n) * 2 ^ hb pkg n = 2 ^ 128 then None else Some (Inr None))"
proof -
  let ?s = "l - plen pkg n" and ?k = "2 ^ (width n - l) :: nat"
  have h: "(2 :: nat) ^ hb pkg n = 2 ^ ?s * ?k"
    using l plen_le [of n] by (simp add: hb_eq power_add [symmetric])
  have base: "base_ip pkg n = bk pkg n * 2 ^ ?s * ?k" by (simp add: base_ip_eq h)
  have stop: "broadcast_ip pkg n = Suc (bk pkg n) * 2 ^ ?s * ?k - 1"
    unfolding broadcast_ip_eq h by (simp add: algebra_simps)
  have "Suc (bk pkg n) * 2 ^ hb pkg n \<le> 2 ^ plen pkg n * 2 ^ hb pkg n"
    using bk_bound [of n] by (intro mult_right_mono) auto
  also have "\<dots> = 2 ^ width n" using plen_le [of n] by (simp add: hb_eq power_add [symmetric])
  finally have e: "Suc (bk pkg n) * 2 ^ ?s * ?k \<le> 2 ^ width n" by (simp only: h mult.assoc)
  have "bk pkg n * 2 ^ ?s < Suc (bk pkg n) * 2 ^ ?s" by (intro mult_strict_right_mono) auto
  then have "next_available_prefix pkg n l nets =
      search pkg n l nets (?k - 1) (Suc (bk pkg n) * 2 ^ ?s * ?k - 1) (bk pkg n * 2 ^ ?s * ?k)"
    using l quirk by (simp only: next_available_prefix_def step_size base stop) simp
  also have "\<dots> = (case find (block_free pkg nets n l) [bk pkg n * 2 ^ ?s ..< Suc (bk pkg n) * 2 ^ ?s] of
       Some j \<Rightarrow> Some (Inr (Some (subnet pkg n l j)))
     | None \<Rightarrow> if bk pkg n * 2 ^ ?s < Suc (bk pkg n) * 2 ^ ?s \<and> Suc (bk pkg n) * 2 ^ ?s * ?k = 2 ^ 128 then None
                else Some (Inr None))"
    by (rule search_first_free [OF l(2) e]) simp_all
  finally show ?thesis by (simp only: h mult.assoc [symmetric]) simp
qed

end

section \<open>Collapsing\<close>

text \<open>No network starts with a smaller network of the list.\<close>

definition starts_clear :: "('n4, 'n6) ipnetwork_pkg \<Rightarrow> ('n4, 'n6) ip_network list \<Rightarrow> bool" where
  "starts_clear pkg nets \<longleftrightarrow>
     (\<forall>a \<in> set nets. \<forall>b \<in> set nets. cells pkg a \<subset> cells pkg b \<longrightarrow> cell (network_of pkg b) \<notin> cells pkg a)"

definition equal_or_disjoint :: "('n4, 'n6) ipnetwork_pkg \<Rightarrow> ('n4, 'n6) ip_network list \<Rightarrow> bool" where
  "equal_or_disjoint pkg nets \<longleftrightarrow>
     (\<forall>a \<in> set nets. \<forall>b \<in> set nets. cells pkg a = cells pkg b \<or> cells pkg a \<inter> cells pkg b = {})"

lemma set_keep_network: "set kept \<subseteq> set (keep_network pkg kept n)" "set (keep_network pkg kept n) \<subseteq> insert n (set kept)"
  by (auto simp: keep_network_def)

lemma keep_network_mono: "set kept \<subseteq> set (foldl (keep_network pkg) kept xs)"
  by (induction xs arbitrary: kept) (use set_keep_network(1) in \<open>force+\<close>)

lemma keep_network_subset: "set (foldl (keep_network pkg) kept xs) \<subseteq> set kept \<union> set xs"
proof (induction xs arbitrary: kept)
  case (Cons x xs)
  from Cons [of "keep_network pkg kept x"] set_keep_network(2) [of pkg kept x] show ?case by auto
qed simp

lemma collapse_subset: "set (collapse_allocated_networks pkg nets) \<subseteq> set nets"
  using keep_network_subset [of pkg "[]" "sort_key (\<lambda>n. 128 - plen pkg n) nets"]
  by (simp add: collapse_allocated_networks_def)

context ip_networks
begin

lemma keep_network_covers:
  assumes "sorted (map key xs)" "\<forall>e \<in> set kept. \<forall>x \<in> set xs. key e \<le> key x" "x \<in> set xs"
  shows "\<exists>e \<in> set (foldl (keep_network pkg) kept xs). contains_addr pkg e (network_of pkg x) \<and> key e \<le> key x"
  using assms
proof (induction xs arbitrary: kept)
  case (Cons y ys)
  let ?kept = "keep_network pkg kept y"
  have k: "\<forall>e \<in> set ?kept. \<forall>x \<in> set ys. key e \<le> key x"
    using Cons.prems set_keep_network(2) [of pkg kept y] by auto
  have y: "\<exists>e \<in> set ?kept. contains_addr pkg e (network_of pkg y) \<and> key e \<le> key y"
    using Cons.prems(2) network_in_cells [of y] by (auto simp: contains_iff keep_network_def)
  show ?case
  proof (cases "x = y")
    case True
    with y keep_network_mono [of ?kept pkg ys] show ?thesis by auto
  next
    case False
    with Cons.prems Cons.IH [OF _ k] show ?thesis by simp
  qed
qed simp

lemma collapse_covers:
  assumes "n \<in> set nets"
  shows "\<exists>e \<in> set (collapse_allocated_networks pkg nets). cell (network_of pkg n) \<in> cells pkg e \<and> cells pkg e \<subseteq> cells pkg n"
proof -
  have "\<exists>e \<in> set (collapse_allocated_networks pkg nets). contains_addr pkg e (network_of pkg n) \<and> 128 - plen pkg e \<le> 128 - plen pkg n"
    unfolding collapse_allocated_networks_def by (rule keep_network_covers) (use assms in simp_all)
  then obtain e where e: "e \<in> set (collapse_allocated_networks pkg nets)" "cell (network_of pkg n) \<in> cells pkg e"
    "128 - plen pkg e \<le> 128 - plen pkg n" by (auto simp: contains_iff)
  from e(2) have f: "isl e = isl n" unfolding cells_def cell_network by simp
  then have "width e = width n" by (simp add: width_def)
  moreover have "width n \<le> 128" by (simp add: width_def)
  ultimately have h: "hb pkg e \<le> hb pkg n" using e(3) plen_le [of e] plen_le [of n] unfolding hb_eq by linarith
  have "dy (hb pkg e) (bk pkg e) \<subseteq> dy (hb pkg n) (bk pkg n)"
  proof (rule ccontr)
    assume no: "\<not> ?thesis"
    have "bk pkg n * 2 ^ hb pkg n \<in> dy (hb pkg e) (bk pkg e)" using e(2) unfolding cells_def cell_network by simp
    moreover have "bk pkg n * 2 ^ hb pkg n \<in> dy (hb pkg n) (bk pkg n)" by (rule start_in_dy)
    ultimately have "dy (hb pkg n) (bk pkg n) \<subseteq> dy (hb pkg e) (bk pkg e)"
      using no dy_laminar [of "hb pkg e" "bk pkg e" "hb pkg n" "bk pkg n"] by blast
    with h have "hb pkg e = hb pkg n" "bk pkg e = bk pkg n" unfolding dy_subset_iff by auto
    with no show False by simp
  qed
  with f have "cells pkg e \<subseteq> cells pkg n" unfolding cells_def by auto
  with e show ?thesis by blast
qed

lemma collapse_union:
  assumes "starts_clear pkg nets"
  shows "(\<Union>n \<in> set (collapse_allocated_networks pkg nets). cells pkg n) = (\<Union>n \<in> set nets. cells pkg n)"
proof -
  have "\<exists>e \<in> set (collapse_allocated_networks pkg nets). cells pkg e = cells pkg n" if "n \<in> set nets" for n
  proof -
    from collapse_covers [OF that] obtain e where "e \<in> set (collapse_allocated_networks pkg nets)"
      "cell (network_of pkg n) \<in> cells pkg e" "cells pkg e \<subseteq> cells pkg n" by blast
    with collapse_subset [of pkg nets] assms that show ?thesis unfolding starts_clear_def by blast
  qed
  with collapse_subset [of pkg nets] show ?thesis by fast
qed

end

section \<open>Counting\<close>

lemma finite_cells [simp]: "finite (cells pkg n)" and card_cells [simp]: "card (cells pkg n) = 2 ^ hb pkg n"
  by (simp_all add: cells_def card_cartesian_product_singleton)

lemma cells_nonempty [simp]: "cells pkg n \<noteq> {}"
  by (simp add: cells_def)

lemma equal_or_disjoint_starts: "equal_or_disjoint pkg nets \<Longrightarrow> starts_clear pkg nets"
  unfolding equal_or_disjoint_def starts_clear_def
proof (intro ballI impI)
  fix a b
  assume all: "\<forall>a \<in> set nets. \<forall>b \<in> set nets. cells pkg a = cells pkg b \<or> cells pkg a \<inter> cells pkg b = {}"
    and "a \<in> set nets" "b \<in> set nets" "cells pkg a \<subset> cells pkg b"
  then have "cells pkg a = {}" by (metis Int_absorb2 psubset_imp_subset psubset_eq)
  then show "cell (network_of pkg b) \<notin> cells pkg a" by simp
qed

lemma card_disjoint_cells:
  "sorted_wrt (\<lambda>a b. cells pkg a \<inter> cells pkg b = {}) ns
   \<Longrightarrow> card (\<Union>n \<in> set ns. cells pkg n) = sum_list (map (\<lambda>n. 2 ^ hb pkg n) ns)"
proof (induction ns)
  case (Cons n ns)
  then have "cells pkg n \<inter> (\<Union>m \<in> set ns. cells pkg m) = {}" by auto
  then have "card (cells pkg n \<union> (\<Union>m \<in> set ns. cells pkg m)) = card (cells pkg n) + card (\<Union>m \<in> set ns. cells pkg m)"
    by (intro card_Un_disjoint) simp_all
  with Cons show ?case by simp
qed simp

lemma saturating_total_exact:
  "(\<And>n. n \<in> set ns \<Longrightarrow> get_network_size pkg n = Some (2 ^ hb pkg n))
   \<Longrightarrow> acc + sum_list (map (\<lambda>n. 2 ^ hb pkg n) ns) < 2 ^ 32
   \<Longrightarrow> saturating_total pkg acc ns = Some (acc + sum_list (map (\<lambda>n. 2 ^ hb pkg n) ns))"
proof (induction ns arbitrary: acc)
  case (Cons n ns)
  have "min (acc + 2 ^ hb pkg n) (2 ^ 32 - 1) = acc + 2 ^ hb pkg n" using Cons.prems(2) by simp
  moreover have "saturating_total pkg (acc + 2 ^ hb pkg n) ns = Some (acc + 2 ^ hb pkg n + sum_list (map (\<lambda>n. 2 ^ hb pkg n) ns))"
    using Cons.prems by (intro Cons.IH) simp_all
  ultimately show ?case using Cons.prems(1) [of n] by (simp add: add.assoc)
qed simp

context ip_networks
begin

lemma keep_network_disjoint:
  assumes "sorted_wrt (\<lambda>a b. cells pkg a \<inter> cells pkg b = {}) kept"
    and "\<forall>a \<in> set kept \<union> set xs. \<forall>b \<in> set kept \<union> set xs. cells pkg a = cells pkg b \<or> cells pkg a \<inter> cells pkg b = {}"
  shows "sorted_wrt (\<lambda>a b. cells pkg a \<inter> cells pkg b = {}) (foldl (keep_network pkg) kept xs)"
  using assms
proof (induction xs arbitrary: kept)
  case (Cons x xs)
  have "\<forall>e \<in> set kept. cells pkg e \<inter> cells pkg x = {}" if "\<not> (\<exists>e \<in> set kept. contains_addr pkg e (network_of pkg x))"
    using that Cons.prems(2) network_in_cells [of x] unfolding contains_iff by (metis UnI1 UnI2 list.set_intros(1))
  then have "sorted_wrt (\<lambda>a b. cells pkg a \<inter> cells pkg b = {}) (keep_network pkg kept x)"
    using Cons.prems(1) by (simp add: keep_network_def sorted_wrt_append)
  moreover have "set (keep_network pkg kept x) \<union> set xs \<subseteq> set kept \<union> set (x # xs)"
    using set_keep_network(2) [of pkg kept x] by auto
  ultimately show ?case using Cons.prems(2) by (simp only: foldl_Cons) (rule Cons.IH, assumption, blast)
qed simp

lemma collapse_disjoint:
  "equal_or_disjoint pkg nets
   \<Longrightarrow> sorted_wrt (\<lambda>a b. cells pkg a \<inter> cells pkg b = {}) (collapse_allocated_networks pkg nets)"
  unfolding collapse_allocated_networks_def equal_or_disjoint_def by (rule keep_network_disjoint) simp_all

lemma network_size_exact:
  assumes "0 < plen pkg n" "hb pkg n \<le> 31"
  shows "get_network_size pkg n = Some (2 ^ hb pkg n)"
proof (cases n)
  case (Inl m)
  with assms show ?thesis by (simp add: get_network_size_def size4_eq plen_def hb_def)
next
  case (Inr m)
  have "(2 :: nat) ^ hb pkg n \<le> 2 ^ 31" using assms by (intro power_increasing) auto
  then have "min (2 ^ hb pkg n) (2 ^ 32 - 1) = (2 :: nat) ^ hb pkg n" by simp
  with Inr assms show ?thesis by (simp add: get_network_size_def size6_eq plen_def hb_def)
qed

lemma inside_size:
  assumes "cells pkg n \<subseteq> cells pkg s" "0 < plen pkg s"
  shows "hb pkg n \<le> hb pkg s" "0 < plen pkg n"
proof -
  from assms(1) have f: "isl n = isl s" and "dy (hb pkg n) (bk pkg n) \<subseteq> dy (hb pkg s) (bk pkg s)"
    unfolding cells_def using dy_nonempty by (auto simp: times_subset_iff)
  then show h: "hb pkg n \<le> hb pkg s" unfolding dy_subset_iff by simp
  from f have "width n = width s" by (simp add: width_def)
  with h assms(2) plen_le [of n] plen_le [of s] show "0 < plen pkg n" unfolding hb_eq by linarith
qed

lemma num_free_counts:
  assumes first: "al_prefixes al = sp # rest" and built: "build_allocated_networks pkg sp (al_used_ips al) = Inr nets"
    and ed: "equal_or_disjoint pkg nets" and inside: "\<And>n. n \<in> set nets \<Longrightarrow> cells pkg n \<subseteq> cells pkg (ap_prefix sp)"
    and size: "0 < plen pkg (ap_prefix sp)" "hb pkg (ap_prefix sp) \<le> 31"
  shows "num_free pkg al = Some (Inr (card (cells pkg (ap_prefix sp) - (\<Union>n \<in> set nets. cells pkg n))))"
proof -
  let ?c = "collapse_allocated_networks pkg nets" and ?s = "ap_prefix sp"
  have u: "(\<Union>n \<in> set ?c. cells pkg n) = (\<Union>n \<in> set nets. cells pkg n)"
    by (rule collapse_union [OF equal_or_disjoint_starts [OF ed]])
  have sub: "(\<Union>n \<in> set nets. cells pkg n) \<subseteq> cells pkg ?s" using inside by blast
  have total: "sum_list (map (\<lambda>n. 2 ^ hb pkg n) ?c) = card (\<Union>n \<in> set nets. cells pkg n)"
    unfolding u [symmetric] by (rule card_disjoint_cells [symmetric, OF collapse_disjoint [OF ed]])
  also have "\<dots> \<le> card (cells pkg ?s)" using sub by (intro card_mono) simp_all
  also have "\<dots> \<le> 2 ^ 31" using size(2) by (simp only: card_cells) (intro power_increasing, simp_all)
  finally have "(0 :: nat) + sum_list (map (\<lambda>n. 2 ^ hb pkg n) ?c) < 2 ^ 32" by simp
  moreover have "get_network_size pkg n = Some (2 ^ hb pkg n)" if "n \<in> set ?c" for n
    using inside_size [OF inside size(1), of n] collapse_subset [of pkg nets] that size
    by (intro network_size_exact) auto
  ultimately have "saturating_total pkg 0 ?c = Some (card (\<Union>n \<in> set nets. cells pkg n))"
    using saturating_total_exact [of ?c pkg 0] total by simp
  moreover have "card (cells pkg ?s - (\<Union>n \<in> set nets. cells pkg n)) = 2 ^ hb pkg ?s - card (\<Union>n \<in> set nets. cells pkg n)"
    using sub by (simp add: card_Diff_subset)
  ultimately show ?thesis using first built network_size_exact [OF size]
    by (simp add: num_free_def get_allocated_def)
qed

end

section \<open>The iterator\<close>

lemma build_parts:
  assumes "build_allocated_networks pkg sp used = Inr nets"
  obtains gw first ends where
    "nets = gw @ first @ ends @ filter (\<lambda>a. contains_addr pkg (ap_prefix sp) (network_of pkg a)) used"
    "\<And>g. ap_gateway sp = Some g \<Longrightarrow> contains_addr pkg (ap_prefix sp) g \<Longrightarrow> collect_res (host_net pkg) [g] = Inr gw"
    "collect_res (host_net pkg) (take (as_usize (ap_num_reserved sp)) (iter_of pkg (ap_prefix sp))) = Inr first"
    "reserves_network_broadcast pkg (ap_prefix sp) \<Longrightarrow>
       collect_res (host_net pkg) [network_of pkg (ap_prefix sp), broadcast_of pkg (ap_prefix sp)] = Inr ends"
  using assms unfolding build_allocated_networks_def bind_res_Inr_iff
  by (elim exE conjE) (rule that, simp_all split: option.splits if_splits)

lemma build_contains_used:
  assumes "build_allocated_networks pkg sp used = Inr nets" "u \<in> set used"
    and "contains_addr pkg (ap_prefix sp) (network_of pkg u)"
  shows "u \<in> set nets"
  using assms by (auto simp: build_allocated_networks_def bind_res_Inr_iff)

text \<open>The prefix length the iterator asks for.\<close>

definition requested_len :: "('n4, 'n6) ip_allocator \<Rightarrow> ('n4, 'n6) ip_network \<Rightarrow> nat" where
  "requested_len al n = (case al_strategy al of NextAvailablePrefix l \<Rightarrow> l | _ \<Rightarrow> if isl n then 32 else 128)"

lemma next_network_Inr:
  assumes "next_network pkg al = Some (al', Some (i, Inr net))" "al_prefixes al = sp # rest"
    and "build_allocated_networks pkg sp (al_used_ips al) = Inr nets"
  shows "i = ap_id sp \<and> al' = al\<lparr>al_prefixes := rest\<rparr>
    \<and> next_available_prefix pkg (ap_prefix sp) (requested_len al (ap_prefix sp)) (collapse_allocated_networks pkg nets)
        = Some (Inr (Some net))"
  using assms
  by (auto simp: next_network_def get_allocated_def requested_len_def Let_def
      split: address_selection_strategy.splits option.splits sum.splits)

lemma find_Some_in: "find P xs = Some x \<Longrightarrow> x \<in> set xs \<and> P x"
  by (auto simp: find_Some_iff)

context ip_networks
begin

lemma host_net_cells:
  assumes "host_net pkg a = Inr n"
  shows "cells pkg n = {cell a}"
proof -
  have "cells pkg n = {cell a} \<and> (case a of V4Addr x \<Rightarrow> isl n | V6Addr x \<Rightarrow> \<not> isl n)"
  proof (cases a)
    case (V4Addr x)
    with net_api.new_eq [OF api4, of 32 x] assms show ?thesis
      by (auto simp: host_net_def network_new_def cells_def cell_def hb_def bk_def host_bits_def block_no_def)
  next
    case (V6Addr x)
    with net_api.new_eq [OF api6, of 128 x] assms show ?thesis
      by (auto simp: host_net_def network_new_def cells_def cell_def hb_def bk_def host_bits_def block_no_def)
  qed
  then show ?thesis by simp
qed

lemma host_net_total: "\<exists>n. host_net pkg a = Inr n"
proof (cases a)
  case (V4Addr x)
  with net_api.new_eq [OF api4, of 32 x] show ?thesis by (auto simp: host_net_def network_new_def)
next
  case (V6Addr x)
  with net_api.new_eq [OF api6, of 128 x] show ?thesis by (auto simp: host_net_def network_new_def)
qed

lemma collect_host_nets: "\<exists>ns. collect_res (host_net pkg) as = Inr ns"
proof (induction as)
  case (Cons a as)
  with host_net_total [of a] show ?case by auto
qed simp

lemma build_total: "\<exists>nets. build_allocated_networks pkg sp used = Inr nets"
  using collect_host_nets [of "take (as_usize (ap_num_reserved sp)) (iter_of pkg (ap_prefix sp))"]
    collect_host_nets [of "[the (ap_gateway sp)]"]
    collect_host_nets [of "[network_of pkg (ap_prefix sp), broadcast_of pkg (ap_prefix sp)]"]
  by (auto simp: build_allocated_networks_def simp del: collect_res.simps split: option.splits)

lemma build_contains_addr:
  assumes "build_allocated_networks pkg sp used = Inr nets"
    and "a \<in> set (take (as_usize (ap_num_reserved sp)) (iter_of pkg (ap_prefix sp)))
       \<or> reserves_network_broadcast pkg (ap_prefix sp) \<and> a \<in> {network_of pkg (ap_prefix sp), broadcast_of pkg (ap_prefix sp)}
       \<or> ap_gateway sp = Some a \<and> contains_addr pkg (ap_prefix sp) a"
  shows "\<exists>n \<in> set nets. cells pkg n = {cell a}"
  using assms(1)
proof (rule build_parts)
  fix gw first ends
  assume parts: "nets = gw @ first @ ends @ filter (\<lambda>a. contains_addr pkg (ap_prefix sp) (network_of pkg a)) used"
    "\<And>g. ap_gateway sp = Some g \<Longrightarrow> contains_addr pkg (ap_prefix sp) g \<Longrightarrow> collect_res (host_net pkg) [g] = Inr gw"
    "collect_res (host_net pkg) (take (as_usize (ap_num_reserved sp)) (iter_of pkg (ap_prefix sp))) = Inr first"
    "reserves_network_broadcast pkg (ap_prefix sp) \<Longrightarrow>
       collect_res (host_net pkg) [network_of pkg (ap_prefix sp), broadcast_of pkg (ap_prefix sp)] = Inr ends"
  have in_ns: "\<exists>n \<in> set ns. cells pkg n = {cell a}" if "collect_res (host_net pkg) as = Inr ns" "a \<in> set as" for ns as
    using collect_res_mem [OF that] host_net_cells by blast
  from assms(2) consider "a \<in> set (take (as_usize (ap_num_reserved sp)) (iter_of pkg (ap_prefix sp)))"
    | "reserves_network_broadcast pkg (ap_prefix sp)" "a \<in> set [network_of pkg (ap_prefix sp), broadcast_of pkg (ap_prefix sp)]"
    | "ap_gateway sp = Some a" "contains_addr pkg (ap_prefix sp) a"
    by auto
  then show ?thesis
  proof cases
    case 1
    with in_ns [OF parts(3)] parts(1) show ?thesis by auto
  next
    case 2
    with in_ns [OF parts(4)] parts(1) show ?thesis by (auto simp del: collect_res.simps)
  next
    case 3
    with in_ns [OF parts(2)] parts(1) show ?thesis by auto
  qed
qed

end

context ip_networks
begin

lemma block_in_segment:
  assumes l: "plen pkg n < l" "l \<le> width n"
    and j: "bk pkg n * 2 ^ (l - plen pkg n) \<le> j" "j < Suc (bk pkg n) * 2 ^ (l - plen pkg n)"
  shows "block_cells n l j \<subseteq> cells pkg n" "j * 2 ^ (width n - l) < 2 ^ width n"
proof -
  have s: "hb pkg n - (width n - l) = l - plen pkg n" "width n - l \<le> hb pkg n"
    using l plen_le [of n] by (simp_all add: hb_eq)
  have "j div 2 ^ (l - plen pkg n) = bk pkg n" using j by (intro div_nat_eqI) (simp_all add: mult.commute)
  then show "block_cells n l j \<subseteq> cells pkg n"
    unfolding block_cells_def cells_def using s by (intro Sigma_mono) (simp_all add: dy_subset_iff)
  have "Suc (bk pkg n) * 2 ^ (l - plen pkg n) \<le> 2 ^ plen pkg n * 2 ^ (l - plen pkg n)"
    using bk_bound [of n] by (intro mult_right_mono) auto
  also have "\<dots> = 2 ^ l" using l by (simp add: power_add [symmetric])
  finally have "j * 2 ^ (width n - l) < 2 ^ l * 2 ^ (width n - l)" using j(2) by simp
  also have "\<dots> = 2 ^ width n" using l by (simp add: power_add [symmetric])
  finally show "j * 2 ^ (width n - l) < 2 ^ width n" .
qed

lemma next_available_sound:
  assumes na: "next_available_prefix pkg n l nets = Some (Inr (Some net))" and quirk: "isl n \<longrightarrow> l \<noteq> 1"
  shows "cells pkg net \<subseteq> cells pkg n \<and> plen pkg net = l \<and> (\<forall>a \<in> set nets. cells pkg a \<inter> cells pkg net = {})"
proof -
  have l: "plen pkg n < l" "l \<le> width n"
    using na by (auto simp: next_available_prefix_def get_network_size_details_def width_def
        split: if_splits option.splits sum.splits)
  with quirk have "isl n \<longrightarrow> 2 \<le> l" by auto
  from next_available_first_free [OF l this, of nets] na obtain j where net: "net = subnet pkg n l j"
    and f: "find (block_free pkg nets n l) [bk pkg n * 2 ^ (l - plen pkg n) ..< Suc (bk pkg n) * 2 ^ (l - plen pkg n)] = Some j"
    by (auto split: option.splits if_splits)
  from find_Some_in [OF f] have j: "bk pkg n * 2 ^ (l - plen pkg n) \<le> j" "j < Suc (bk pkg n) * 2 ^ (l - plen pkg n)"
    and free: "block_free pkg nets n l j" by auto
  note b = block_in_segment [OF l j]
  from subnet_built [OF l(2) b(2)] b(1) free show ?thesis by (simp add: net block_free_def)
qed

end

section \<open>The reference networks\<close>

definition ref_size :: "'a::len ref_net \<Rightarrow> 'a word option" where
  "ref_size n = (if ref_len n = 0 then None else Some (2 ^ ref_host n))"

definition ref_iter :: "'a::len ref_net \<Rightarrow> 'a word list" where
  "ref_iter n = map of_nat [unat (ref_first n) ..< Suc (unat (ref_last n))]"

definition ref_ipnetwork :: "(32 ref_net, 128 ref_net) ipnetwork_pkg" where
  "ref_ipnetwork = \<lparr>nw4 = ref_net_ops, nw6 = ref_net_ops,
     contains4 = \<lambda>n a. unat a div 2 ^ ref_host n = ref_block n, contains6 = \<lambda>n a. unat a div 2 ^ ref_host n = ref_block n,
     size4 = ref_size, size6 = ref_size, iter4 = ref_iter, iter6 = ref_iter\<rparr>"

lemma unat_ref_iter:
  fixes n :: "'a::len ref_net"
  shows "map unat (ref_iter n) = [unat (ref_first n) ..< Suc (unat (ref_last n))]"
proof -
  have "unat (of_nat i :: 'a word) = i" if "i \<le> unat (ref_last n)" for i
    using that unsigned_less [of "ref_last n", where ?'a = nat] by (intro unat_of_nat_small) linarith
  then show ?thesis unfolding ref_iter_def map_map by (intro map_idI) auto
qed

interpretation ref_networks: ip_networks ref_ipnetwork
  by (rule ip_networks.intro)
     (simp_all add: ref_ipnetwork_def ref_nets.net_api_axioms covers_def ref_size_def unat_ref_iter del: upt_Suc)

section \<open>Properties\<close>

text \<open>C11. The search for a free sub-network visits the blocks of the requested length in the segment from
  the lowest and takes the first that no given network touches; it returns nothing when there is none.
  It always returns, except that stepping past a segment at the very end of the IPv6 address space
  overflows. The network it returns has the requested length and is exactly that block.\<close>

theorem next_available_prefix_first_fit:
  assumes "ip_networks pkg" and "plen pkg n < l" "l \<le> width n" "isl n \<longrightarrow> 2 \<le> l"
  shows "next_available_prefix pkg n l nets =
    (case find (\<lambda>j. \<forall>a \<in> set nets. cells pkg a \<inter> block_cells n l j = {})
        [bk pkg n * 2 ^ (l - plen pkg n) ..< Suc (bk pkg n) * 2 ^ (l - plen pkg n)] of
       Some j \<Rightarrow> Some (Inr (Some (subnet pkg n l j)))
     | None \<Rightarrow> if Suc (bk pkg n) * 2 ^ hb pkg n = 2 ^ 128 then None else Some (Inr None))
   \<and> (\<forall>j < 2 ^ l. cells pkg (subnet pkg n l j) = block_cells n l j \<and> plen pkg (subnet pkg n l j) = l)"
proof -
  have "j * 2 ^ (width n - l) < 2 ^ width n" if "j < 2 ^ l" for j :: nat
  proof -
    have "j * 2 ^ (width n - l) < 2 ^ l * 2 ^ (width n - l)" using that by simp
    also have "\<dots> = 2 ^ width n" using assms(3) by (simp add: power_add [symmetric])
    finally show ?thesis .
  qed
  with ip_networks.next_available_first_free [OF assms, of nets] ip_networks.subnet_built [OF assms(1,3)]
  show ?thesis unfolding block_free_def by blast
qed



section \<open>Instances\<close>

text \<open>A segment of 16 addresses without gateway and reserved addresses; in the second, the first four
  addresses are in use as one network.\<close>

definition small_prefix :: "(32 ref_net, 128 ref_net) alloc_prefix" where
  "small_prefix = \<lparr>ap_id = 7, ap_prefix = Inl (mk_net 0 28), ap_gateway = None, ap_num_reserved = 0\<rparr>"

definition small_segment :: "32 ref_net list \<Rightarrow> (32 ref_net, 128 ref_net) ip_allocator" where
  "small_segment used = \<lparr>al_prefixes = [small_prefix], al_used_ips = map Inl used, al_strategy = NextAvailableIp\<rparr>"

lemma small_segment_simps [simp]:
  "al_prefixes (small_segment used) = [small_prefix]" "al_used_ips (small_segment used) = map Inl used"
  "al_strategy (small_segment used) = NextAvailableIp"
  "ap_id small_prefix = 7" "ap_prefix small_prefix = Inl (mk_net 0 28)" "ap_gateway small_prefix = None"
  "ap_num_reserved small_prefix = 0"
  by (simp_all add: small_segment_def small_prefix_def)

lemma ref_pkg_simps [simp]:
  "plen ref_ipnetwork (Inl n) = ref_len n" "hb ref_ipnetwork (Inl n) = ref_host n" "bk ref_ipnetwork (Inl n) = ref_block n"
  "network_of ref_ipnetwork (Inl n) = V4Addr (ref_first n)" "broadcast_of ref_ipnetwork (Inl n) = V4Addr (ref_last n)"
  "host_net ref_ipnetwork (V4Addr a) = Inr (Inl (mk_net a 32))"
  "reserves_network_broadcast ref_ipnetwork (Inl n) = (ref_len n < 31)"
  by (simp_all add: ref_ipnetwork_def plen_def hb_def bk_def network_of_def broadcast_of_def host_net_def network_new_def
      ref_net_ops_def reserves_network_broadcast_def host_bits_def block_no_def ref_host_def ref_block_def)

lemma small_segment_numbers [simp]:
  "ref_host (mk_net (0 :: u32) 28) = 4" "ref_block (mk_net (0 :: u32) 28) = 0"
  "ref_first (mk_net (0 :: u32) 28) = 0" "ref_last (mk_net (0 :: u32) 28) = 15"
  "ref_host (mk_net a 32 :: 32 ref_net) = 0" "ref_block (mk_net a 32 :: 32 ref_net) = unat a" "ref_first (mk_net a 32 :: 32 ref_net) = a"
  "ref_host (mk_net (0 :: u32) 30) = 2" "ref_block (mk_net (0 :: u32) 30) = 0" "ref_first (mk_net (0 :: u32) 30) = 0"
  by (simp_all add: ref_host_def ref_block_def ref_first_def ref_last_def)

lemma small_segment_built:
  "build_allocated_networks ref_ipnetwork small_prefix (map Inl used)
     = Inr ([Inl (mk_net 0 32), Inl (mk_net 15 32)]
            @ filter (\<lambda>a. contains_addr ref_ipnetwork (Inl (mk_net 0 28)) (network_of ref_ipnetwork a)) (map Inl used))"
  by (simp add: build_allocated_networks_def as_usize_def)

lemma small_segment_free:
  "block_free ref_ipnetwork [Inl (mk_net 0 32), Inl (mk_net 15 32)] (Inl (mk_net 0 28)) 32 j \<longleftrightarrow> j \<noteq> 0 \<and> j \<noteq> 15"
  by (auto simp: block_free_def cells_def block_cells_def width_def dy_def)

lemma small_segment_next:
  assumes "build_allocated_networks ref_ipnetwork small_prefix (map Inl used) = Inr nets"
    and "collapse_allocated_networks ref_ipnetwork nets = [Inl (mk_net 0 32), Inl (mk_net 15 32)]"
  shows "next_network ref_ipnetwork (small_segment used)
    = Some ((small_segment used)\<lparr>al_prefixes := []\<rparr>, Some (7, Inr (subnet ref_ipnetwork (Inl (mk_net 0 28)) 32 1)))"
proof -
  have "find (block_free ref_ipnetwork [Inl (mk_net 0 32), Inl (mk_net 15 32)] (Inl (mk_net 0 28)) 32) [0 ..< 16] = Some 1"
    by (simp add: small_segment_free upt_rec)
  then have "next_available_prefix ref_ipnetwork (Inl (mk_net 0 28)) 32 [Inl (mk_net 0 32), Inl (mk_net 15 32)]
      = Some (Inr (Some (subnet ref_ipnetwork (Inl (mk_net 0 28)) 32 1)))"
    using ref_networks.next_available_first_free [of "Inl (mk_net 0 28)" 32] by (simp add: width_def)
  with assms show ?thesis
    by (simp add: next_network_def get_allocated_def)
qed

lemma small_subnet_cells: "cells ref_ipnetwork (subnet ref_ipnetwork (Inl (mk_net 0 28)) 32 1) = {(True, 1)}"
  using ref_networks.subnet_built [of 32 "Inl (mk_net 0 28)" 1] by (auto simp: width_def block_cells_def dy_def)

lemma collapse_small [simp]:
  "collapse_allocated_networks ref_ipnetwork [Inl (mk_net 0 32), Inl (mk_net 15 32)] = [Inl (mk_net 0 32), Inl (mk_net 15 32)]"
  "collapse_allocated_networks ref_ipnetwork [Inl (mk_net 0 32), Inl (mk_net 15 32), Inl (mk_net 0 30)]
     = [Inl (mk_net 0 32), Inl (mk_net 15 32)]"
  by (simp_all add: collapse_allocated_networks_def keep_network_def ref_networks.contains_iff cells_def cell_def)

lemma small_segment_clear: "equal_or_disjoint ref_ipnetwork [Inl (mk_net 0 32), Inl (mk_net 15 32)]"
  by (simp add: equal_or_disjoint_def cells_def dy_def)

theorem next_available_prefix_first_fit_witness:
  "next_available_prefix ref_ipnetwork (Inl (mk_net 0 28)) 32 [] = Some (Inr (Some (subnet ref_ipnetwork (Inl (mk_net 0 28)) 32 0)))"
  using next_available_prefix_first_fit [OF ref_networks.ip_networks_axioms, of "Inl (mk_net 0 28)" 32 "[]"]
  by (simp add: width_def upt_rec)

lemma small_segment_built_empty:
  "build_allocated_networks ref_ipnetwork small_prefix (al_used_ips (small_segment [])) = Inr [Inl (mk_net 0 32), Inl (mk_net 15 32)]"
  using small_segment_built [of "[]"] by simp




end
