(* ===== verification/Work_Lock.thy ===== *)
theory Work_Lock
  imports Prelude "HOL-Library.AList"
begin

text \<open>
  Work locks (\<open>src/crates/api-db/src/work_lock_manager.rs\<close>): named locks that live in the table \<open>work_locks\<close>, expire
  when they are not kept alive, and are taken, kept alive and released by one message loop per API server.

  Each server has its own loop with a bounded queue of commands; the loops share the table. What a loop takes from
  outside with each command is the record \<open>lock_env\<close>: the database clock, the identifier
  \<open>gen_random_uuid()\<close> draws, whether the connection is alive or can be replaced, and whether the statement fails,
  before or after it was applied. The lemmas show what each command does to the holder of a key, and that a lock
  changes hands only after a release or an expiry.
\<close>

section \<open>Definitions\<close>

record 'w work_lock =
  wl_worker :: 'w
  wl_started :: int
  wl_last_keepalive :: int

type_synonym 'w lock_table = "(string \<times> 'w work_lock) list"

record keepalive_config =
  ka_interval :: int
  ka_timeout :: int

text \<open>\<open>KeepaliveConfig::default()\<close>, in seconds.\<close>

definition default_keepalive :: keepalive_config where
  "default_keepalive = \<lparr>ka_interval = 10, ka_timeout = 60\<rparr>"

datatype lock_db_error = FailedPrecondition string | QueryFailed string

datatype acquire_lock_error =
    WorkAlreadyLocked string
  | AcquireDatabase lock_db_error
  | AcquireSend
  | AcquireNoReply
  | AcquireTimeout

datatype keep_alive_error = LockLost string | KeepAliveDatabase lock_db_error | KeepAliveSend | KeepAliveNoReply

text \<open>A command of the manager; the flag of \<open>AcquireLock\<close> is \<open>reply_tx.is_closed()\<close> at the time it is handled.\<close>

datatype 'w lock_command =
    AcquireLock string bool
  | KeepLockAlive string 'w
  | ReleaseLock string 'w

datatype 'w lock_reply =
    AcquireReply "acquire_lock_error + 'w"
  | KeepAliveReply "keep_alive_error + unit"
  | NoReply

record 'w lock_env =
  le_clk :: int
  le_fresh :: 'w
  le_ping :: bool
  le_reconnect :: bool
  le_failure :: "(bool \<times> string) option"

subsection \<open>The statements\<close>

text \<open>The upsert of \<open>try_acquire_lock\<close>.\<close>

definition try_acquire_lock :: "int \<Rightarrow> 'w \<Rightarrow> int \<Rightarrow> string \<Rightarrow> 'w lock_table \<Rightarrow> 'w lock_table \<times> 'w option" where
  "try_acquire_lock clk fresh_id keepalive_timeout key t =
     (let new = \<lparr>wl_worker = fresh_id, wl_started = clk, wl_last_keepalive = clk\<rparr>
      in case map_of t key of
           None \<Rightarrow> (t @ [(key, new)], Some fresh_id)
         | Some l \<Rightarrow> if wl_last_keepalive l + keepalive_timeout < clk
                    then (AList.map_entry key (\<lambda>_. new) t, Some fresh_id) else (t, None))"

definition release_lock ::
    "('w \<Rightarrow> string) \<Rightarrow> string \<Rightarrow> 'w \<Rightarrow> 'w lock_table \<Rightarrow> 'w lock_table \<times> (lock_db_error + unit)" where
  "release_lock show_worker key w t =
     (let hit = (\<lambda>kl. fst kl = key \<and> wl_worker (snd kl) = w)
      in (filter (\<lambda>kl. \<not> hit kl) t,
          if filter hit t = [] then Inl (FailedPrecondition
            (''Tried to release nonexistent lock for work_key='' @ key @ '', worker_id='' @ show_worker w))
          else Inr ()))"

definition keep_lock_alive ::
    "('w \<Rightarrow> string) \<Rightarrow> int \<Rightarrow> string \<Rightarrow> 'w \<Rightarrow> 'w lock_table \<Rightarrow> 'w lock_table \<times> (lock_db_error + unit)" where
  "keep_lock_alive show_worker clk key w t =
     (let hit = (\<lambda>kl. fst kl = key \<and> wl_worker (snd kl) = w)
      in (map (\<lambda>kl. if hit kl then (fst kl, (snd kl)\<lparr>wl_last_keepalive := clk\<rparr>) else kl) t,
          if filter hit t = [] then Inl (FailedPrecondition
            (''BUG: Tried to keep alive nonexistent lock for work_key='' @ key @ '', worker_id='' @ show_worker w
             @ '' worker likely was not sending keep-alives frequently enough.''))
          else Inr ()))"

subsection \<open>The message loop\<close>

text \<open>A statement that fails was applied before the failure or not.\<close>

definition run_statement :: "'w lock_env \<Rightarrow> 'w lock_table \<Rightarrow> 'w lock_table \<times> (lock_db_error + 'a) \<Rightarrow> 'w lock_table \<times> (lock_db_error + 'a)" where
  "run_statement env t r =
     (case le_failure env of
        None \<Rightarrow> r
      | Some (applied, e) \<Rightarrow> (if applied then fst r else t, Inl (QueryFailed e)))"

fun handle_command ::
    "('w \<Rightarrow> string) \<Rightarrow> int \<Rightarrow> 'w lock_env \<Rightarrow> 'w lock_command \<Rightarrow> 'w lock_table \<Rightarrow> 'w lock_table \<times> 'w lock_reply" where
  "handle_command show_worker timeout env (AcquireLock key closed) t =
     (if closed then (t, NoReply)
      else case run_statement env t (map_prod id Inr (try_acquire_lock (le_clk env) (le_fresh env) timeout key t)) of
             (t', Inr (Some w)) \<Rightarrow> (t', AcquireReply (Inr w))
           | (t', Inr None) \<Rightarrow> (t', AcquireReply (Inl (WorkAlreadyLocked key)))
           | (t', Inl e) \<Rightarrow> (t', AcquireReply (Inl (AcquireDatabase e))))"
| "handle_command show_worker timeout env (ReleaseLock key w) t =
     (fst (run_statement env t (release_lock show_worker key w t)), NoReply)"
| "handle_command show_worker timeout env (KeepLockAlive key w) t =
     (case run_statement env t (keep_lock_alive show_worker (le_clk env) key w t) of
        (t', Inr _) \<Rightarrow> (t', KeepAliveReply (Inr ()))
      | (t', Inl (FailedPrecondition msg)) \<Rightarrow> (t', KeepAliveReply (Inl (LockLost msg)))
      | (t', Inl e) \<Rightarrow> (t', KeepAliveReply (Inl (KeepAliveDatabase e))))"

text \<open>One turn of \<open>run_loop\<close>: a dead connection is replaced, or the command is dropped with its reply channel.\<close>

definition loop_turn ::
    "('w \<Rightarrow> string) \<Rightarrow> int \<Rightarrow> 'w lock_env \<Rightarrow> 'w lock_command \<Rightarrow> 'w lock_table \<Rightarrow> 'w lock_table \<times> 'w lock_reply" where
  "loop_turn show_worker timeout env command t =
     (if \<not> le_ping env \<and> \<not> le_reconnect env then (t, NoReply) else handle_command show_worker timeout env command t)"

text \<open>The turns of all loops, in the order in which the database runs their statements.\<close>

primrec run_loop ::
    "('w \<Rightarrow> string) \<Rightarrow> int \<Rightarrow> ('w lock_env \<times> 'w lock_command) list \<Rightarrow> 'w lock_table \<Rightarrow> 'w lock_table \<times> 'w lock_reply list" where
  "run_loop show_worker timeout [] t = (t, [])"
| "run_loop show_worker timeout (e # es) t =
     (let (t1, r) = loop_turn show_worker timeout (fst e) (snd e) t; (t2, rs) = run_loop show_worker timeout es t1
      in (t2, r # rs))"

subsection \<open>The handle\<close>

definition COMMAND_BUFFER_SIZE :: nat where
  "COMMAND_BUFFER_SIZE = 100"

definition try_send :: "'c list \<Rightarrow> 'c \<Rightarrow> 'c list option" where
  "try_send queue c = (if length queue < COMMAND_BUFFER_SIZE then Some (queue @ [c]) else None)"

text \<open>The first half of \<open>WorkLockManagerHandle::try_acquire_lock\<close> and \<open>keep_lock_alive\<close>, before the reply, and the
  \<open>Drop\<close> of a lock.\<close>

definition send_acquire :: "'w lock_command list \<Rightarrow> string \<Rightarrow> acquire_lock_error + 'w lock_command list" where
  "send_acquire queue key = ok_or (try_send queue (AcquireLock key False)) AcquireSend"

definition send_keep_alive :: "'w lock_command list \<Rightarrow> string \<Rightarrow> 'w \<Rightarrow> keep_alive_error + 'w lock_command list" where
  "send_keep_alive queue key w = ok_or (try_send queue (KeepLockAlive key w)) KeepAliveSend"

definition drop_work_lock :: "'w lock_command list \<Rightarrow> string \<Rightarrow> 'w \<Rightarrow> 'w lock_command list" where
  "drop_work_lock queue key w = (case try_send queue (ReleaseLock key w) of Some q \<Rightarrow> q | None \<Rightarrow> queue)"

text \<open>\<open>WorkLockManagerHandle::try_acquire_lock\<close> as a whole: the queue has room or not, and the loop handles the command
  in a turn of its own.\<close>

definition manager_try_acquire_lock ::
    "('w \<Rightarrow> string) \<Rightarrow> int \<Rightarrow> bool \<Rightarrow> 'w lock_env \<Rightarrow> string \<Rightarrow> 'w lock_table \<Rightarrow> 'w lock_table \<times> (acquire_lock_error + 'w)" where
  "manager_try_acquire_lock show_worker timeout room env key t =
     (if \<not> room then (t, Inl AcquireSend)
      else case loop_turn show_worker timeout env (AcquireLock key False) t of
             (t', AcquireReply r) \<Rightarrow> (t', r)
           | (t', _) \<Rightarrow> (t', Inl AcquireNoReply))"

section \<open>What a turn does to the holder of a key\<close>

definition holder :: "'w lock_table \<Rightarrow> string \<Rightarrow> 'w option" where
  "holder t key = map_option wl_worker (map_of t key)"

lemma map_of_map_entry_const: "map_of (AList.map_entry k (\<lambda>_. v) t) = (if map_of t k = None then map_of t else (map_of t)(k \<mapsto> v))"
  by (induction t) (auto simp: fun_eq_iff)

lemma map_of_keep_alive:
  "map_of (map (\<lambda>kl. if fst kl = key \<and> wl_worker (snd kl) = w then (fst kl, (snd kl)\<lparr>wl_last_keepalive := c\<rparr>) else kl) t) k
     = (case map_of t k of None \<Rightarrow> None
        | Some l \<Rightarrow> Some (if k = key \<and> wl_worker l = w then l\<lparr>wl_last_keepalive := c\<rparr> else l))"
  by (induction t) auto

lemma map_of_release:
  "distinct (map fst t) \<Longrightarrow> map_of (filter (\<lambda>kl. fst kl = key \<longrightarrow> wl_worker (snd kl) \<noteq> w) t) k
     = (if k = key \<and> holder t key = Some w then None else map_of t k)"
proof (induction t)
  case (Cons a t)
  then have "map_of t (fst a) = None" by (simp add: map_of_eq_None_iff)
  with Cons show ?case by (auto simp: holder_def split: if_splits)
qed (simp add: holder_def)

lemma keep_alive_hit:
  "distinct (map fst t) \<Longrightarrow> (filter (\<lambda>kl. fst kl = key \<and> wl_worker (snd kl) = w) t = []) = (holder t key \<noteq> Some w)"
  by (auto simp: filter_empty_conv holder_def dest: map_of_SomeD)

text \<open>A turn leaves the table alone or runs the statement of its command.\<close>

fun statement_table :: "int \<Rightarrow> 'w lock_env \<Rightarrow> 'w lock_command \<Rightarrow> 'w lock_table \<Rightarrow> 'w lock_table" where
  "statement_table timeout env (AcquireLock key _) t = fst (try_acquire_lock (le_clk env) (le_fresh env) timeout key t)"
| "statement_table timeout env (ReleaseLock key w) t = fst (release_lock (\<lambda>_. []) key w t)"
| "statement_table timeout env (KeepLockAlive key w) t = fst (keep_lock_alive (\<lambda>_. []) (le_clk env) key w t)"

lemma fst_statements:
  "fst (release_lock show_worker key w t) = fst (release_lock show_worker' key w t)"
  "fst (keep_lock_alive show_worker clk key w t) = fst (keep_lock_alive show_worker' clk key w t)"
  by (simp_all add: release_lock_def keep_lock_alive_def Let_def)

lemma fst_run_statement: "fst (run_statement env t r) = t \<or> fst (run_statement env t r) = fst r"
  by (simp add: run_statement_def split: option.split)

lemma fst_handle_command:
  "fst (handle_command show_worker timeout env (AcquireLock key closed) t) = (if closed then t else
     fst (run_statement env t (map_prod id (Inr :: _ \<Rightarrow> lock_db_error + _) (try_acquire_lock (le_clk env) (le_fresh env) timeout key t))))"
  "fst (handle_command show_worker timeout env (KeepLockAlive key w) t)
     = fst (run_statement env t (keep_lock_alive show_worker (le_clk env) key w t))"
proof -
  obtain t1 r1 where "run_statement env t (map_prod id (Inr :: _ \<Rightarrow> lock_db_error + _)
      (try_acquire_lock (le_clk env) (le_fresh env) timeout key t)) = (t1, r1)"
    by (meson surj_pair)
  then show "fst (handle_command show_worker timeout env (AcquireLock key closed) t) = (if closed then t else
     fst (run_statement env t (map_prod id (Inr :: _ \<Rightarrow> lock_db_error + _) (try_acquire_lock (le_clk env) (le_fresh env) timeout key t))))"
    by (simp split: sum.split option.split)
  obtain t2 r2 where "run_statement env t (keep_lock_alive show_worker (le_clk env) key w t) = (t2, r2)"
    by (meson surj_pair)
  then show "fst (handle_command show_worker timeout env (KeepLockAlive key w) t)
     = fst (run_statement env t (keep_lock_alive show_worker (le_clk env) key w t))"
    by (simp split: sum.split lock_db_error.split)
qed

lemma loop_turn_table:
  assumes "loop_turn show_worker timeout env c t = (t', r)"
  shows "t' = t \<or> t' = statement_table timeout env c t"
proof -
  have "t' = fst (loop_turn show_worker timeout env c t)" using assms by simp
  then have "t' = t \<or> t' = fst (handle_command show_worker timeout env c t)" by (simp add: loop_turn_def split: if_splits)
  moreover have "fst (handle_command show_worker timeout env c t) = t
      \<or> fst (handle_command show_worker timeout env c t) = statement_table timeout env c t"
  proof (cases c)
    case (AcquireLock key closed)
    then show ?thesis
      using fst_run_statement [of env t "map_prod id (Inr :: _ \<Rightarrow> lock_db_error + _) (try_acquire_lock (le_clk env) (le_fresh env) timeout key t)"]
      by (auto simp: fst_handle_command simp del: handle_command.simps)
  next
    case (KeepLockAlive key w)
    then show ?thesis
      using fst_run_statement [of env t "keep_lock_alive show_worker (le_clk env) key w t"]
      by (auto simp: fst_handle_command fst_statements(2) [of show_worker _ _ _ _ "\<lambda>_. []"] simp del: handle_command.simps)
  next
    case (ReleaseLock key w)
    then show ?thesis
      using fst_run_statement [of env t "release_lock show_worker key w t"]
      by (auto simp: fst_statements(1) [of show_worker _ _ _ "\<lambda>_. []"])
  qed
  ultimately show ?thesis by auto
qed

lemma statement_table_distinct: "distinct (map fst t) \<Longrightarrow> distinct (map fst (statement_table timeout env c t))"
proof (cases c)
  case (AcquireLock key closed)
  moreover assume "distinct (map fst t)"
  ultimately show ?thesis
    by (auto simp: try_acquire_lock_def Let_def distinct_map_entry map_of_eq_None_iff split: option.split)
next
  case (KeepLockAlive key w)
  have "map fst (map (\<lambda>kl. if fst kl = key \<and> wl_worker (snd kl) = w then (fst kl, (snd kl)\<lparr>wl_last_keepalive := x\<rparr>) else kl) t) = map fst t" for x
    by simp
  moreover assume "distinct (map fst t)"
  ultimately show ?thesis using KeepLockAlive by (simp add: keep_lock_alive_def Let_def del: map_map)
next
  case (ReleaseLock key w)
  moreover assume "distinct (map fst t)"
  ultimately show ?thesis by (simp add: release_lock_def Let_def distinct_map_filter)
qed

lemma loop_turn_distinct:
  "distinct (map fst t) \<Longrightarrow> loop_turn show_worker timeout env c t = (t', r) \<Longrightarrow> distinct (map fst t')"
  using loop_turn_table statement_table_distinct by metis

text \<open>What a statement leaves of the row of a key: it is handed over after its expiry, refreshed by its holder, removed by
  its holder, or left alone.\<close>

lemma statement_table_row:
  assumes "distinct (map fst t)"
  shows "map_of (statement_table timeout env c t) k =
    (case c of
       AcquireLock key _ \<Rightarrow>
         if k = key \<and> (\<forall>l. map_of t k = Some l \<longrightarrow> wl_last_keepalive l + timeout < le_clk env)
         then Some \<lparr>wl_worker = le_fresh env, wl_started = le_clk env, wl_last_keepalive = le_clk env\<rparr> else map_of t k
     | KeepLockAlive key w \<Rightarrow>
         if k = key \<and> holder t k = Some w then map_option (wl_last_keepalive_update (\<lambda>_. le_clk env)) (map_of t k) else map_of t k
     | ReleaseLock key w \<Rightarrow> if k = key \<and> holder t key = Some w then None else map_of t k)"
proof (cases c)
  case (AcquireLock key closed)
  then show ?thesis by (auto simp: try_acquire_lock_def Let_def map_of_map_entry_const map_add_def split: option.split)
next
  case (KeepLockAlive key w)
  then show ?thesis by (auto simp: keep_lock_alive_def Let_def map_of_keep_alive holder_def split: option.split)
next
  case (ReleaseLock key w)
  with assms show ?thesis by (simp add: release_lock_def Let_def map_of_release)
qed

lemma loop_turn_acquired:
  assumes "loop_turn show_worker timeout env (AcquireLock k closed) t = (t', AcquireReply (Inr w))"
  shows "w = le_fresh env" "\<And>l. map_of t k = Some l \<Longrightarrow> wl_last_keepalive l + timeout < le_clk env"
    "map_of t' k = Some \<lparr>wl_worker = w, wl_started = le_clk env, wl_last_keepalive = le_clk env\<rparr>"
  using assms
  by (auto simp: loop_turn_def run_statement_def try_acquire_lock_def Let_def map_of_map_entry_const map_add_def
      split: option.split_asm sum.split_asm prod.split_asm if_splits)

lemma loop_turn_kept_alive:
  assumes "distinct (map fst t)" "loop_turn show_worker timeout env (KeepLockAlive k w) t = (t', KeepAliveReply (Inr ()))"
  shows "\<exists>l. map_of t k = Some l \<and> wl_worker l = w \<and> map_of t' k = Some (l\<lparr>wl_last_keepalive := le_clk env\<rparr>)"
  using assms
  by (auto simp: loop_turn_def run_statement_def keep_lock_alive_def Let_def map_of_keep_alive keep_alive_hit holder_def
      split: option.split_asm sum.split_asm prod.split_asm if_splits lock_db_error.split_asm)

section \<open>A lock changes hands only after a release or an expiry\<close>

text \<open>Worker \<open>w\<close> was last heard of at \<open>heard\<close>: it holds the key since, or it lost it by expiry before \<open>c\<close>.\<close>

definition held :: "int \<Rightarrow> int \<Rightarrow> string \<Rightarrow> 'w \<Rightarrow> int \<Rightarrow> 'w lock_table \<Rightarrow> bool" where
  "held timeout c k w heard t \<longleftrightarrow> heard \<le> c
     \<and> (case map_of t k of
          Some l \<Rightarrow> wl_worker l = w \<and> heard \<le> wl_last_keepalive l \<or> wl_worker l \<noteq> w \<and> heard + timeout < c
        | None \<Rightarrow> heard + timeout < c)"

lemma held_turn:
  assumes h: "held timeout c k w heard t" and d: "distinct (map fst t)" and "loop_turn show_worker timeout env cmd t = (t', r)"
    and "c \<le> le_clk env" "w \<noteq> le_fresh env" "cmd \<noteq> ReleaseLock k w"
  shows "held timeout (le_clk env) k w heard t'"
proof -
  have "held timeout (le_clk env) k w heard t" using h assms(4) by (auto simp: held_def split: option.splits)
  moreover have "held timeout (le_clk env) k w heard (statement_table timeout env cmd t)"
    using h assms(4-6)
    by (cases cmd) (auto simp: held_def statement_table_row [OF d] holder_def simp del: statement_table.simps split: option.splits if_splits)
  ultimately show ?thesis using loop_turn_table [OF assms(3)] by auto
qed

lemma held_run:
  assumes "held timeout c k w heard t" "distinct (map fst t)" "sorted (c # map (\<lambda>e. le_clk (fst e)) es)"
    "w \<notin> (\<lambda>e. le_fresh (fst e)) ` set es" "j < length es" "snd (es ! j) = AcquireLock k closed"
    "snd (run_loop show_worker timeout es t) ! j = AcquireReply (Inr w')" "\<forall>m < j. snd (es ! m) \<noteq> ReleaseLock k w"
  shows "heard + timeout < le_clk (fst (es ! j))
    \<and> (\<forall>m < j. snd (es ! m) = KeepLockAlive k w \<and> snd (run_loop show_worker timeout es t) ! m = KeepAliveReply (Inr ())
         \<longrightarrow> le_clk (fst (es ! m)) + timeout < le_clk (fst (es ! j)))"
  using assms
proof (induction es arbitrary: c t heard j)
  case (Cons e es)
  obtain t1 r where turn: "loop_turn show_worker timeout (fst e) (snd e) t = (t1, r)" by (meson surj_pair)
  obtain t2 rs where run: "run_loop show_worker timeout es t1 = (t2, rs)" by (meson surj_pair)
  have c: "c \<le> le_clk (fst e)" "sorted (le_clk (fst e) # map (\<lambda>e. le_clk (fst e)) es)" using Cons.prems(3) by auto
  have d1: "distinct (map fst t1)" by (rule loop_turn_distinct [OF Cons.prems(2) turn])
  show ?case
  proof (cases j)
    case 0
    with Cons.prems(6,7) turn run have "loop_turn show_worker timeout (fst e) (AcquireLock k closed) t = (t1, AcquireReply (Inr w'))"
      by simp
    from loop_turn_acquired(2) [OF this] Cons.prems(1) c 0 show ?thesis
      by (fastforce simp: held_def split: option.splits)
  next
    case (Suc i)
    let ?alive = "snd e = KeepLockAlive k w \<and> r = KeepAliveReply (Inr ())"
    have "snd e \<noteq> ReleaseLock k w" using Cons.prems(8) Suc by (metis nth_Cons_0 zero_less_Suc)
    then have "held timeout (le_clk (fst e)) k w heard t1"
      using held_turn [OF Cons.prems(1,2) turn c(1)] Cons.prems(4) by simp
    have alive: "?alive \<Longrightarrow> held timeout (le_clk (fst e)) k w (le_clk (fst e)) t1"
      using loop_turn_kept_alive [OF Cons.prems(2), of show_worker timeout "fst e" k w t1] turn by (auto simp: held_def)
    have IH: "x + timeout < le_clk (fst (es ! i)) \<and> (\<forall>m < i. snd (es ! m) = KeepLockAlive k w
        \<and> rs ! m = KeepAliveReply (Inr ()) \<longrightarrow> le_clk (fst (es ! m)) + timeout < le_clk (fst (es ! i)))"
      if "x = heard \<or> ?alive \<and> x = le_clk (fst e)" for x
    proof -
      have "held timeout (le_clk (fst e)) k w x t1" using that \<open>held timeout (le_clk (fst e)) k w heard t1\<close> alive by blast
      moreover have "\<forall>m < i. snd (es ! m) \<noteq> ReleaseLock k w" using Cons.prems(8) Suc by (metis Suc_less_eq nth_Cons_Suc)
      ultimately show ?thesis using Cons.IH [OF _ d1 c(2), of x i] Cons.prems(4-7) Suc turn run by simp
    qed
    show ?thesis
    proof (intro conjI allI impI)
      show "heard + timeout < le_clk (fst ((e # es) ! j))" using IH [of heard] Suc by simp
      fix m assume "m < j" "snd ((e # es) ! m) = KeepLockAlive k w
        \<and> snd (run_loop show_worker timeout (e # es) t) ! m = KeepAliveReply (Inr ())"
      then show "le_clk (fst ((e # es) ! m)) + timeout < le_clk (fst ((e # es) ! j))"
        using IH [of heard] IH [of "le_clk (fst e)"] Suc turn run by (cases m) auto
    qed
  qed
qed simp

lemma run_loop_Cons:
  "run_loop show_worker timeout (e # es) t =
     (let (t1, r) = loop_turn show_worker timeout (fst e) (snd e) t
      in (fst (run_loop show_worker timeout es t1), r # snd (run_loop show_worker timeout es t1)))"
  by (simp add: Let_def split: prod.split)

lemma run_loop_append:
  "run_loop show_worker timeout (es @ fs) t =
     (fst (run_loop show_worker timeout fs (fst (run_loop show_worker timeout es t))),
      snd (run_loop show_worker timeout es t) @ snd (run_loop show_worker timeout fs (fst (run_loop show_worker timeout es t))))"
proof (induction es arbitrary: t)
  case (Cons e es)
  then show ?case unfolding append_Cons run_loop_Cons by (simp add: Let_def split: prod.split)
qed simp

lemma length_run_loop [simp]: "length (snd (run_loop show_worker timeout es t)) = length es"
proof (induction es arbitrary: t)
  case (Cons e es)
  then show ?case unfolding run_loop_Cons by (simp add: Let_def split: prod.split)
qed simp

lemma run_loop_distinct: "distinct (map fst t) \<Longrightarrow> distinct (map fst (fst (run_loop show_worker timeout es t)))"
proof (induction es arbitrary: t)
  case (Cons e es)
  obtain t1 r where turn: "loop_turn show_worker timeout (fst e) (snd e) t = (t1, r)" by (meson surj_pair)
  from Cons.IH [OF loop_turn_distinct [OF Cons.prems turn]] turn show ?case unfolding run_loop_Cons by simp
qed simp

text \<open>
  C7. However the loops of several servers interleave, a lock changes hands only after it was released or expired: when a
  worker has acquired a key and another acquisition of the key succeeds later, then in between the worker's release was
  handled, or the acquisition comes later than the timeout after the first acquisition and after every keep-alive of the
  worker that was answered. Database failures, lost replies and dropped commands do not change that. The database
  clock does not run backwards, and the identifiers of the workers are different.
\<close>

theorem lock_exclusive:
  assumes key: "distinct (map fst t)" and clock: "sorted (map (\<lambda>e. le_clk (fst e)) es)"
    and uuids: "distinct (map (\<lambda>e. le_fresh (fst e)) es)"
    and "snd (run_loop show_worker timeout es t) = rs" and "i < j" "j < length es"
    and "snd (es ! i) = AcquireLock k ci" "rs ! i = AcquireReply (Inr w)"
    and "snd (es ! j) = AcquireLock k cj" "rs ! j = AcquireReply (Inr w')"
  shows "(\<exists>m. i < m \<and> m < j \<and> snd (es ! m) = ReleaseLock k w)
    \<or> (\<forall>m. i \<le> m \<and> m < j \<and> (m = i \<or> snd (es ! m) = KeepLockAlive k w \<and> rs ! m = KeepAliveReply (Inr ()))
          \<longrightarrow> le_clk (fst (es ! m)) + timeout < le_clk (fst (es ! j)))"
proof (cases "\<exists>m. i < m \<and> m < j \<and> snd (es ! m) = ReleaseLock k w")
  case False
  define before where "before = fst (run_loop show_worker timeout (take i es) t)"
  define later where "later = drop (Suc i) es"
  have es: "es = take i es @ es ! i # later" using assms(5,6) by (simp add: later_def id_take_nth_drop)
  obtain t1 r where turn: "loop_turn show_worker timeout (fst (es ! i)) (snd (es ! i)) before = (t1, r)" by (meson surj_pair)
  have rs: "rs = snd (run_loop show_worker timeout (take i es) t) @ r # snd (run_loop show_worker timeout later t1)"
    using assms(4) es turn run_loop_append [of show_worker timeout "take i es" "es ! i # later" t]
    by (simp add: run_loop_Cons before_def del: run_loop.simps flip: append_Cons)
  have i: "length (take i es) = i" using assms(5,6) by simp
  with rs assms(8) have "r = AcquireReply (Inr w)" by (metis length_run_loop nth_append_length)
  with turn assms(7) have acq: "loop_turn show_worker timeout (fst (es ! i)) (AcquireLock k ci) before = (t1, AcquireReply (Inr w))"
    by simp
  have rs_later: "rs ! (Suc i + n) = snd (run_loop show_worker timeout later t1) ! n" for n
    using rs i by (simp add: nth_append)
  have es_later: "es ! (Suc i + n) = later ! n" if "Suc i + n < length es" for n
    using that by (simp add: later_def)
  obtain n where n: "j = Suc i + n" using assms(5) by (metis less_iff_Suc_add add_Suc)
  have "held timeout (le_clk (fst (es ! i))) k w (le_clk (fst (es ! i))) t1"
    using loop_turn_acquired(3) [OF acq] by (simp add: held_def)
  moreover have "distinct (map fst t1)"
    using loop_turn_distinct [OF _ turn] run_loop_distinct [OF key] by (simp add: before_def)
  moreover have "sorted (le_clk (fst (es ! i)) # map (\<lambda>e. le_clk (fst e)) later)"
    using clock es by (metis (no_types, lifting) list.simps(9) map_append sorted_append)
  moreover have "w \<notin> (\<lambda>e. le_fresh (fst e)) ` set later"
    using uuids es loop_turn_acquired(1) [OF acq]
    by (metis (no_types, lifting) distinct.simps(2) distinct_append list.simps(9) list.set_map map_append)
  moreover have "\<forall>m < n. snd (later ! m) \<noteq> ReleaseLock k w"
    using False assms(6) es_later n by (metis add_less_cancel_left less_add_Suc1 add_Suc less_trans)
  ultimately have held: "le_clk (fst (es ! i)) + timeout < le_clk (fst (later ! n))
      \<and> (\<forall>m < n. snd (later ! m) = KeepLockAlive k w \<and> snd (run_loop show_worker timeout later t1) ! m = KeepAliveReply (Inr ())
           \<longrightarrow> le_clk (fst (later ! m)) + timeout < le_clk (fst (later ! n)))"
    using held_run [of timeout "le_clk (fst (es ! i))" k w "le_clk (fst (es ! i))" t1 later n cj show_worker w']
      assms(6,9,10) n es_later [of n] rs_later [of n] by (simp add: later_def)
  have "le_clk (fst (es ! m)) + timeout < le_clk (fst (es ! j))"
    if m: "i \<le> m" "m < j" "m = i \<or> snd (es ! m) = KeepLockAlive k w \<and> rs ! m = KeepAliveReply (Inr ())" for m
  proof (cases "m = i")
    case True
    with held es_later [of n] n assms(6) show ?thesis by simp
  next
    case False
    with m n obtain m' where m': "m = Suc i + m'" "m' < n" by (metis add_less_cancel_left le_neq_implies_less less_iff_Suc_add add_Suc)
    with held m(3) False es_later [of n] es_later [of m'] rs_later [of m'] n assms(6) show ?thesis by simp
  qed
  then show ?thesis by blast
qed simp

lemma length_two: "length xs = Suc (Suc 0) \<Longrightarrow> \<exists>a b. xs = [a, b]"
  by (cases xs; cases "tl xs") auto

lemma zip_take_queue: "zip (take (length q) es) q = zip es q"
  using take_zip [of "length q" es q] by simp

text \<open>
  C26. A dropped lock can be taken again at once: when the holder of a key drops its lock and then asks for the key over the
  same handle, and the queue of the manager has room for both commands, then the request is handled after the release and
  gets the key, provided the database works for the two commands and the worker still held the key when the queue
  before them was handled.
\<close>

theorem dropped_lock_reacquired:
  assumes room: "length queue + 2 \<le> COMMAND_BUFFER_SIZE" and key: "distinct (map fst t)"
    and envs: "length envs = length queue + 2"
      "\<forall>env \<in> set (drop (length queue) envs). (le_ping env \<or> le_reconnect env) \<and> le_failure env = None"
    and "fst (run_loop show_worker timeout (zip envs queue) t) = t1" "holder t1 k = Some w"
  shows "\<exists>queue'. send_acquire (drop_work_lock queue k w) k = Inr queue'
    \<and> last (snd (run_loop show_worker timeout (zip envs queue') t)) = AcquireReply (Inr (le_fresh (last envs)))"
proof -
  let ?q = "queue @ [ReleaseLock k w, AcquireLock k False]"
  have sent: "send_acquire (drop_work_lock queue k w) k = Inr ?q"
    using room by (simp add: send_acquire_def drop_work_lock_def try_send_def ok_or_def)
  have "length (drop (length queue) envs) = Suc (Suc 0)" using envs(1) by simp
  then obtain e1 e2 where e: "drop (length queue) envs = [e1, e2]"
    using length_two by blast
  have zip: "zip envs ?q = zip envs queue @ [(e1, ReleaseLock k w), (e2, AcquireLock k False)]"
    using envs(1) by (simp add: zip_append2 e zip_take_queue)
  have d: "distinct (map fst t1)" using run_loop_distinct [OF key] assms(5) by metis
  have "last envs = last (drop (length queue) envs)" using envs(1) by (simp add: last_drop)
  then have "last envs = e2" by (simp add: e)
  let ?t2 = "filter (\<lambda>kl. fst kl = k \<longrightarrow> wl_worker (snd kl) \<noteq> w) t1"
  have free: "map_of ?t2 k = None" using map_of_release [OF d, of k w k] assms(6) by simp
  have live: "\<not> (\<not> le_ping e1 \<and> \<not> le_reconnect e1)" "le_failure e1 = None" "\<not> (\<not> le_ping e2 \<and> \<not> le_reconnect e2)" "le_failure e2 = None"
    using envs(2) e by auto
  have "loop_turn show_worker timeout e1 (ReleaseLock k w) t1 = (?t2, NoReply)"
    unfolding loop_turn_def if_not_P [OF live(1)] by (simp add: run_statement_def live release_lock_def Let_def)
  moreover obtain t3 where "loop_turn show_worker timeout e2 (AcquireLock k False) ?t2 = (t3, AcquireReply (Inr (le_fresh e2)))"
    unfolding loop_turn_def if_not_P [OF live(3)] by (simp add: run_statement_def live try_acquire_lock_def Let_def free)
  ultimately show ?thesis
    using sent \<open>last envs = e2\<close> by (simp add: zip run_loop_append assms(5))
qed

section \<open>Witnesses\<close>

definition lock_event :: "int \<Rightarrow> nat \<Rightarrow> nat lock_env" where
  "lock_event clk fresh_id = \<lparr>le_clk = clk, le_fresh = fresh_id, le_ping = True, le_reconnect = True, le_failure = None\<rparr>"

definition lock_story :: "(nat lock_env \<times> nat lock_command) list" where
  "lock_story = [(lock_event 0 1, AcquireLock ''work'' False), (lock_event 50 2, KeepLockAlive ''work'' 1),
     (lock_event 100 3, AcquireLock ''work'' False), (lock_event 111 4, AcquireLock ''work'' False)]"

lemma lock_story_replies:
  "snd (run_loop (\<lambda>_. ''w'') 60 lock_story []) = [AcquireReply (Inr 1), KeepAliveReply (Inr ()),
     AcquireReply (Inl (WorkAlreadyLocked ''work'')), AcquireReply (Inr 4)]"
  by code_simp

theorem lock_exclusive_witness:
  "snd (run_loop (\<lambda>_. ''w'') 60 lock_story []) ! 3 = AcquireReply (Inr 4)
   \<and> le_clk (fst (lock_story ! 1)) + 60 < le_clk (fst (lock_story ! 3))"
proof -
  let ?rs = "[AcquireReply (Inr 1), KeepAliveReply (Inr ()), AcquireReply (Inl (WorkAlreadyLocked ''work'')), AcquireReply (Inr (4 :: nat))]"
  have d: "distinct (map (\<lambda>e. le_fresh (fst e)) lock_story)" "sorted (map (\<lambda>e. le_clk (fst e)) lock_story)"
    by (simp_all add: lock_story_def lock_event_def)
  have cmds: "snd (lock_story ! 0) = AcquireLock ''work'' False" "snd (lock_story ! 1) = KeepLockAlive ''work'' 1"
    "snd (lock_story ! 2) = AcquireLock ''work'' False" "snd (lock_story ! 3) = AcquireLock ''work'' False" "length lock_story = 4"
    by (simp_all add: lock_story_def)
  have "m = 0 \<or> m = 1 \<or> m = 2" if "m < 3" for m :: nat using that by auto
  then have no_release: "\<not> (\<exists>m. 0 < m \<and> m < 3 \<and> snd (lock_story ! m) = ReleaseLock ''work'' 1)"
    using cmds by fastforce
  have "(\<exists>m. 0 < m \<and> m < 3 \<and> snd (lock_story ! m) = ReleaseLock ''work'' 1)
    \<or> (\<forall>m. 0 \<le> m \<and> m < 3 \<and> (m = 0 \<or> snd (lock_story ! m) = KeepLockAlive ''work'' 1 \<and> ?rs ! m = KeepAliveReply (Inr ()))
          \<longrightarrow> le_clk (fst (lock_story ! m)) + 60 < le_clk (fst (lock_story ! 3)))"
    by (rule lock_exclusive [OF _ d(2,1) lock_story_replies _ _ cmds(1) _ cmds(4)]) (simp_all add: cmds)
  with no_release have "\<forall>m. 0 \<le> m \<and> m < 3 \<and> (m = 0 \<or> snd (lock_story ! m) = KeepLockAlive ''work'' 1 \<and> ?rs ! m = KeepAliveReply (Inr ()))
          \<longrightarrow> le_clk (fst (lock_story ! m)) + 60 < le_clk (fst (lock_story ! 3))"
    by blast
  from this [rule_format, of 1] cmds(2) lock_story_replies show ?thesis by simp
qed

theorem dropped_lock_reacquired_witness:
  "\<exists>queue'. send_acquire (drop_work_lock [] ''work'' (1 :: nat)) ''work'' = Inr queue'
    \<and> last (snd (run_loop (\<lambda>_. ''w'') 60 (zip [lock_event 1 2, lock_event 1 3] queue')
        [(''work'', \<lparr>wl_worker = 1, wl_started = 0, wl_last_keepalive = 0\<rparr>)])) = AcquireReply (Inr 3)"
  using dropped_lock_reacquired [of "[]" "[(''work'', \<lparr>wl_worker = 1, wl_started = 0, wl_last_keepalive = 0\<rparr>)]"
      "[lock_event 1 2, lock_event 1 3]" "\<lambda>_. ''w''" 60 "[(''work'', \<lparr>wl_worker = 1, wl_started = 0, wl_last_keepalive = 0\<rparr>)]" "''work''" 1]
  by (simp add: COMMAND_BUFFER_SIZE_def holder_def lock_event_def)

end
