(* ===== verification/State_Processor.thy ===== *)
theory State_Processor
  imports Work_Queue State_Handler "HOL-Library.AList"
begin

text \<open>
  The state processor (\<open>src/crates/state-controller/src/controller/processor.rs\<close>, with the settings of
  \<open>config.rs\<close> and the loop of \<open>controller.rs\<close>): it takes objects from the queue, hands each to a task of its own,
  collects the results, deletes the entries of finished objects and queues those again that changed state.

  One processor is the record \<open>processor\<close>; hash sets are lists without duplicates, the channel of the tasks is a
  list of results. A database transaction fails before or after it was applied (\<open>db_fault\<close>). The queue is shared:
  what other processes commit between two transactions of an iteration is an argument. What one task does to its object
  is the theory \<open>Process_Object\<close>. The relation \<open>world_step\<close> is the interleaving of any number of processors, their
  tasks and the enqueuers on one queue.
\<close>

section \<open>Definitions\<close>

text \<open>Durations and instants are milliseconds.\<close>

record iteration_config =
  iteration_time :: nat
  max_object_handling_time :: nat
  max_concurrency :: nat
  processor_dispatch_interval :: nat
  processor_log_interval :: nat
  metric_emission_interval :: nat
  metric_hold_time :: nat

definition default_iteration_config :: iteration_config where
  "default_iteration_config = \<lparr>iteration_time = 30000, max_object_handling_time = 3 * 60000, max_concurrency = 10,
     processor_dispatch_interval = 2000, processor_log_interval = 60000, metric_emission_interval = 60000,
     metric_hold_time = 5 * 60000\<rparr>"

record processor_stats =
  st_dispatched :: nat
  st_completed :: nat
  st_errored :: nat
  st_deleted :: nat
  st_requeued :: nat

record ('o, 'cs) processor =
  processor_id :: string
  in_flight :: "'o list"
  completed_objects :: "'o list"
  requeue_list :: "'o list"
  task_results :: "('o \<times> 'cs object_metrics) list"
  collected_metrics :: "('o \<times> 'cs object_metrics \<times> nat) list"
  last_metric_emission :: nat
  proc_stats :: processor_stats

definition new_processor :: "string \<Rightarrow> ('o, 'cs) processor" where
  "new_processor pid = \<lparr>processor_id = pid, in_flight = [], completed_objects = [], requeue_list = [], task_results = [],
     collected_metrics = [], last_metric_emission = 0,
     proc_stats = \<lparr>st_dispatched = 0, st_completed = 0, st_errored = 0, st_deleted = 0, st_requeued = 0\<rparr>\<rparr>"

datatype db_fault = NoFault | NotApplied string | AppliedThenLost string

fun transaction :: "db_fault \<Rightarrow> 't \<Rightarrow> 't \<times> 'a \<Rightarrow> 't \<times> (string + 'a)" where
  "transaction NoFault t r = (fst r, Inr (snd r))"
| "transaction (NotApplied e) t r = (t, Inl e)"
| "transaction (AppliedThenLost e) t r = (fst r, Inl e)"

definition remaining_capacity :: "iteration_config \<Rightarrow> ('o, 'cs) processor \<Rightarrow> nat" where
  "remaining_capacity cfg p = max_concurrency cfg - length (in_flight p)"

definition max_outdated :: "iteration_config \<Rightarrow> int" where
  "max_outdated cfg = int (max_object_handling_time cfg) * 3"

text \<open>The answer are the objects for which a task is spawned.\<close>

definition dequeue_and_dispatch ::
    "(string \<Rightarrow> 'o option) \<Rightarrow> iteration_config \<Rightarrow> (string \<Rightarrow> bool) \<Rightarrow> db_fault \<Rightarrow> int \<Rightarrow> ('o, 'cs) processor \<Rightarrow> queue_table
       \<Rightarrow> ('o, 'cs) processor \<times> queue_table \<times> (string + 'o list)" where
  "dequeue_and_dispatch id_from_str cfg locked fault clk p t =
     (let capacity = remaining_capacity cfg p;
          (t', acquired) =
            (if 0 < capacity
             then transaction fault t (acquire_queued_objects locked clk t (min capacity (2 ^ 32 - 1)) (processor_id p) (max_outdated cfg))
             else (t, Inr []))
      in case acquired of
           Inl e \<Rightarrow> (p, t', Inl e)
         | Inr rows \<Rightarrow>
             (let objects = List.map_filter (\<lambda>r. id_from_str (object_id r)) rows
              in (p\<lparr>in_flight := fold List.insert objects (in_flight p),
                    proc_stats := (proc_stats p)\<lparr>st_dispatched := st_dispatched (proc_stats p) + length objects\<rparr>\<rparr>,
                  t', Inr objects)))"

definition process_object_handling_task_result ::
    "bool \<Rightarrow> nat \<Rightarrow> ('o, 'cs) processor \<Rightarrow> 'o \<times> 'cs object_metrics \<Rightarrow> ('o, 'cs) processor" where
  "process_object_handling_task_result allow_requeue collected_at p task_result =
     (let (i, metrics) = task_result; st = proc_stats p
      in p\<lparr>completed_objects := List.insert i (completed_objects p),
           requeue_list := (if allow_requeue \<and> next_state metrics \<noteq> None then List.insert i (requeue_list p) else requeue_list p),
           proc_stats := st\<lparr>st_completed := st_completed st + 1,
                            st_errored := st_errored st + (if om_error metrics \<noteq> None then 1 else 0)\<rparr>,
           in_flight := removeAll i (in_flight p),
           collected_metrics := AList.update i (metrics, collected_at) (collected_metrics p)\<rparr>)"

text \<open>\<open>received\<close> is the number of results \<open>recv_many\<close> returns; 0 is a time-out. They are handled from the last to the
  first.\<close>

definition wait_and_process ::
    "bool \<Rightarrow> nat \<Rightarrow> nat \<Rightarrow> ('o, 'cs) processor \<Rightarrow> ('o, 'cs) processor \<times> nat" where
  "wait_and_process allow_requeue received collected_at p =
     (if in_flight p = [] then (p, 0)
      else (let finished_tasks = take received (task_results p)
            in (fold (\<lambda>r p. process_object_handling_task_result allow_requeue collected_at p r) (rev finished_tasks)
                  (p\<lparr>task_results := drop received (task_results p)\<rparr>), length finished_tasks)))"

definition cleanup_completed_objects ::
    "('o \<Rightarrow> string) \<Rightarrow> db_fault \<Rightarrow> ('o, 'cs) processor \<Rightarrow> queue_table \<Rightarrow> ('o, 'cs) processor \<times> queue_table \<times> (string + unit)" where
  "cleanup_completed_objects id_to_string fault p t =
     (if completed_objects p = [] then (p, t, Inr ())
      else case transaction fault t (delete_queued_objects t (map id_to_string (completed_objects p)) (processor_id p)) of
             (t', Inl e) \<Rightarrow> (p, t', Inl e)
           | (t', Inr num_deleted) \<Rightarrow>
               (p\<lparr>proc_stats := (proc_stats p)\<lparr>st_deleted := st_deleted (proc_stats p) + num_deleted\<rparr>,
                  completed_objects := []\<rparr>, t', Inr ()))"

definition requeue_transitioned_objects ::
    "('o \<Rightarrow> string) \<Rightarrow> db_fault \<Rightarrow> int \<Rightarrow> ('o, 'cs) processor \<Rightarrow> queue_table
       \<Rightarrow> ('o, 'cs) processor \<times> queue_table \<times> (string + unit)" where
  "requeue_transitioned_objects id_to_string fault clk p t =
     (if requeue_list p = [] then (p, t, Inr ())
      else case transaction fault t (queue_objects clk t (map id_to_string (requeue_list p))) of
             (t', Inl e) \<Rightarrow> (p, t', Inl e)
           | (t', Inr num_requeued) \<Rightarrow>
               (p\<lparr>proc_stats := (proc_stats p)\<lparr>st_requeued := st_requeued (proc_stats p) + num_requeued\<rparr>,
                  requeue_list := []\<rparr>, t', Inr ()))"

text \<open>The aggregate is computed before stale metrics are dropped. Instants are natural numbers, so \<open>checked_sub\<close> is the
  test on the left.\<close>

definition emit_metrics ::
    "('cs \<Rightarrow> full_state) \<Rightarrow> iteration_config \<Rightarrow> nat \<Rightarrow> ('o, 'cs) processor
       \<Rightarrow> ('o, 'cs) processor \<times> (full_state \<rightharpoonup> state_metrics)" where
  "emit_metrics metric_state_names cfg instant p =
     (let aggregate = foldl (merge_object_handling_metrics metric_state_names) Map.empty (map (fst \<circ> snd) (collected_metrics p));
          min_age = (if metric_hold_time cfg \<le> instant then instant - metric_hold_time cfg else instant)
      in (p\<lparr>last_metric_emission := instant,
            collected_metrics := filter (\<lambda>m. min_age \<le> snd (snd m)) (collected_metrics p)\<rparr>, aggregate))"

definition emit_metrics_if_necessary ::
    "('cs \<Rightarrow> full_state) \<Rightarrow> iteration_config \<Rightarrow> nat \<Rightarrow> ('o, 'cs) processor
       \<Rightarrow> ('o, 'cs) processor \<times> (full_state \<rightharpoonup> state_metrics) option" where
  "emit_metrics_if_necessary metric_state_names cfg instant p =
     (if instant < last_metric_emission p + metric_emission_interval cfg then (p, None)
      else (let (p', a) = emit_metrics metric_state_names cfg instant p in (p', Some a)))"

record ('o, 'cs) processor_env =
  pe_clk :: int
  pe_locked :: "string \<Rightarrow> bool"
  pe_acquire :: db_fault
  pe_arrivals :: "('o \<times> 'cs object_metrics) list"
  pe_received :: nat
  pe_collected_at :: nat
  pe_before_cleanup :: "queue_table \<Rightarrow> queue_table"
  pe_cleanup :: db_fault
  pe_before_requeue :: "queue_table \<Rightarrow> queue_table"
  pe_requeue :: db_fault
  pe_requeue_clk :: int
  pe_started_at :: nat
  pe_emitted_at :: nat

definition run_single_iteration ::
    "(string \<Rightarrow> 'o option) \<Rightarrow> ('o \<Rightarrow> string) \<Rightarrow> ('cs \<Rightarrow> full_state) \<Rightarrow> iteration_config \<Rightarrow> ('o, 'cs) processor_env \<Rightarrow> bool
       \<Rightarrow> ('o, 'cs) processor \<Rightarrow> queue_table \<Rightarrow> ('o, 'cs) processor \<times> queue_table \<times> (string + nat \<times> nat)" where
  "run_single_iteration id_from_str id_to_string metric_state_names cfg env allow_requeue p t =
     (case dequeue_and_dispatch id_from_str cfg (pe_locked env) (pe_acquire env) (pe_clk env) p t of
        (p1, t1, Inl e) \<Rightarrow> (p1, t1, Inl e)
      | (p1, t1, Inr objects) \<Rightarrow>
          (let (p2, completed) = wait_and_process allow_requeue (pe_received env) (pe_collected_at env)
                                   (p1\<lparr>task_results := task_results p1 @ pe_arrivals env\<rparr>)
           in case cleanup_completed_objects id_to_string (pe_cleanup env) p2 (pe_before_cleanup env t1) of
                (p3, t2, Inl e) \<Rightarrow> (p3, t2, Inl e)
              | (p3, t2, Inr _) \<Rightarrow>
                  (case requeue_transitioned_objects id_to_string (pe_requeue env) (pe_requeue_clk env) p3 (pe_before_requeue env t2) of
                     (p4, t3, Inl e) \<Rightarrow> (p4, t3, Inl e)
                   | (p4, t3, Inr _) \<Rightarrow>
                       (fst (emit_metrics_if_necessary metric_state_names cfg (pe_emitted_at env) p4), t3,
                        Inr (length objects, completed)))))"

text \<open>When \<open>run\<close> dispatches again: at once if more than one task completed, else after the interval with its jitter.\<close>

definition next_dispatch_at :: "iteration_config \<Rightarrow> nat \<Rightarrow> nat \<Rightarrow> string + nat \<times> nat \<Rightarrow> nat" where
  "next_dispatch_at cfg start draw result =
     (let max_jitter = processor_dispatch_interval cfg div 3;
          jitter = (if 0 < max_jitter then draw mod max_jitter else 0)
      in case result of
           Inr (_, num_completed_tasks) \<Rightarrow>
             if 1 < num_completed_tasks then start else start + (processor_dispatch_interval cfg + jitter)
         | Inl _ \<Rightarrow> start + (processor_dispatch_interval cfg + jitter))"

text \<open>The loop of \<open>StateController::run_single_iteration_ext\<close> after the enqueuer has run; \<open>env\<close> gives each pass what it
  takes from outside, knowing which objects the pass starts with.\<close>

partial_function (option) process_all ::
    "(string \<Rightarrow> 'o option) \<Rightarrow> ('o \<Rightarrow> string) \<Rightarrow> ('cs \<Rightarrow> full_state) \<Rightarrow> iteration_config
       \<Rightarrow> (nat \<Rightarrow> ('o, 'cs) processor \<Rightarrow> queue_table \<Rightarrow> ('o, 'cs) processor_env) \<Rightarrow> bool \<Rightarrow> nat
       \<Rightarrow> ('o, 'cs) processor \<Rightarrow> queue_table \<Rightarrow> (('o, 'cs) processor \<times> queue_table) option" where
  "process_all id_from_str id_to_string metric_state_names cfg env allow_requeue n p t =
     (case run_single_iteration id_from_str id_to_string metric_state_names cfg (env n p t) allow_requeue
             (p\<lparr>last_metric_emission := pe_started_at (env n p t)\<rparr>) t of
        (p', t', _) \<Rightarrow> if in_flight p' = [] then Some (p', t')
                      else process_all id_from_str id_to_string metric_state_names cfg env allow_requeue (Suc n) p' t')"

section \<open>The steps of a processor\<close>

lemma fold_insert:
  "set (fold List.insert xs ys) = set xs \<union> set ys" "length (fold List.insert xs ys) \<le> length xs + length ys"
  "distinct ys \<Longrightarrow> distinct (fold List.insert xs ys)"
proof -
  show "set (fold List.insert xs ys) = set xs \<union> set ys" by (induction xs arbitrary: ys) auto
  show "distinct ys \<Longrightarrow> distinct (fold List.insert xs ys)" by (induction xs arbitrary: ys) auto
  have "length (List.insert x zs) \<le> Suc (length zs)" for x :: 'a and zs by (simp add: List.insert_def)
  then show "length (fold List.insert xs ys) \<le> length xs + length ys"
  proof (induction xs arbitrary: ys)
    case (Cons x xs)
    from Cons.IH [OF Cons.prems, of "List.insert x ys"] Cons.prems [of x ys] show ?case by simp
  qed simp
qed

lemma map_filter_mem: "y \<in> set (List.map_filter f xs) \<longleftrightarrow> (\<exists>x \<in> set xs. f x = Some y)"
  by (auto simp: List.map_filter_def) (force simp: image_iff)

lemma length_map_filter: "length (List.map_filter f xs) \<le> length xs"
  by (simp add: List.map_filter_def)

lemma distinct_map_filter_inj:
  "distinct xs \<Longrightarrow> (\<And>x y z. x \<in> set xs \<Longrightarrow> y \<in> set xs \<Longrightarrow> f x = Some z \<Longrightarrow> f y = Some z \<Longrightarrow> x = y) \<Longrightarrow> distinct (List.map_filter f xs)"
  by (induction xs) (auto simp: map_filter_simps map_filter_mem split: option.split)

text \<open>What a dispatch does to the queue, whatever happens to its transaction, and which objects get a task.\<close>

lemma dispatch_effect:
  assumes pk: "primary_key t" and "dequeue_and_dispatch id_from_str cfg locked fault clk p t = (p', t', r)"
  obtains ids where "primary_key t'" "queued_ids t' = queued_ids t" "distinct ids"
    "\<And>x. view t' x = (if x \<in> set ids then Some (Some (processor_id p), clk) else view t x)"
    "\<And>x. x \<in> set ids \<Longrightarrow> \<exists>own s. view t x = Some (own, s) \<and> (own = None \<or> s + max_outdated cfg < clk)"
    "\<And>objects. r = Inr objects \<Longrightarrow> objects = List.map_filter id_from_str ids"
    "processor_id p' = processor_id p" "completed_objects p' = completed_objects p" "task_results p' = task_results p"
    "requeue_list p' = requeue_list p"
    "set (in_flight p') = set (in_flight p) \<union> (case r of Inl _ \<Rightarrow> {} | Inr objects \<Rightarrow> set objects)"
    "length (in_flight p) \<le> max_concurrency cfg \<longrightarrow> length (in_flight p') \<le> max_concurrency cfg"
proof -
  obtain t1 rows where acq: "acquire_queued_objects locked clk t (min (remaining_capacity cfg p) (2 ^ 32 - 1)) (processor_id p) (max_outdated cfg)
      = (t1, rows)" by (meson surj_pair)
  note a = acquire_view [OF pk acq]
  have q: "queued_ids t1 = queued_ids t"
    using a(2,5) by (metis (no_types, lifting) option.distinct(1) set_eqI view_None_iff)
  have len: "length (List.map_filter (\<lambda>r. id_from_str (object_id r)) rows) \<le> remaining_capacity cfg p"
    using a(4) length_map_filter [of "\<lambda>r. id_from_str (object_id r)" rows] by linarith
  have mf: "List.map_filter (\<lambda>r. id_from_str (object_id r)) rows = List.map_filter id_from_str (map object_id rows)"
    by (simp add: List.map_filter_def filter_map comp_def)
  let ?objs = "List.map_filter id_from_str (map object_id rows)"
  consider (idle) "t' = t" "p' = p" "isl r \<or> r = Inr []"
    | (lost) "t' = t1" "isl r" "p' = p"
    | (dispatched) st where "t' = t1" "r = Inr ?objs" "p' = p\<lparr>in_flight := fold List.insert ?objs (in_flight p), proc_stats := st\<rparr>"
  proof (cases "remaining_capacity cfg p = 0")
    case True
    with assms(2) have "t' = t \<and> p' = p \<and> r = Inr []"
      by (auto simp: dequeue_and_dispatch_def Let_def map_filter_simps)
    then show ?thesis using idle by blast
  next
    case False
    with assms(2) acq show ?thesis
      by (cases fault) (auto simp: dequeue_and_dispatch_def Let_def mf intro: idle lost dispatched)
  qed
  then show ?thesis
  proof cases
    case idle
    with pk show ?thesis by (intro that [of "[]"]) (auto simp: map_filter_simps split: sum.splits)
  next
    case lost
    with q a show ?thesis by (intro that [of "map object_id rows"]) (auto split: sum.splits)
  next
    case dispatched
    have "length (fold List.insert ?objs (in_flight p)) \<le> max_concurrency cfg" if "length (in_flight p) \<le> max_concurrency cfg"
      using fold_insert(2) [of ?objs "in_flight p"] len that by (simp add: mf remaining_capacity_def)
    with dispatched q a show ?thesis by (intro that [of "map object_id rows"]) (auto simp: fold_insert(1))
  qed
qed

text \<open>What handling results does.\<close>

lemma process_results:
  fixes allow_requeue c and p :: "('o, 'cs) processor"
  defines "go \<equiv> fold (\<lambda>r p. process_object_handling_task_result allow_requeue c p r)"
  shows "set (completed_objects (go rs p)) = fst ` set rs \<union> set (completed_objects p)"
    "distinct (completed_objects p) \<Longrightarrow> distinct (completed_objects (go rs p))"
    "in_flight (go rs p) = filter (\<lambda>i. i \<notin> fst ` set rs) (in_flight p)"
    "task_results (go rs p) = task_results p" "processor_id (go rs p) = processor_id p"
    "allow_requeue = False \<Longrightarrow> requeue_list (go rs p) = requeue_list p"
  unfolding go_def
  by (induction rs arbitrary: p)
     (auto simp: process_object_handling_task_result_def Let_def removeAll_filter_not_eq split: prod.splits intro: filter_cong)

lemma wait_effect:
  assumes "wait_and_process allow_requeue n c p = (p', k)"
  shows "p' = p \<or> set (completed_objects p') = fst ` set (take n (task_results p)) \<union> set (completed_objects p)
      \<and> in_flight p' = filter (\<lambda>i. i \<notin> fst ` set (take n (task_results p))) (in_flight p)
      \<and> task_results p' = drop n (task_results p)"
    "distinct (completed_objects p) \<Longrightarrow> distinct (completed_objects p')" "processor_id p' = processor_id p"
    "allow_requeue = False \<Longrightarrow> requeue_list p' = requeue_list p"
    "in_flight p \<noteq> [] \<Longrightarrow> set (completed_objects p') = fst ` set (take n (task_results p)) \<union> set (completed_objects p)
      \<and> in_flight p' = filter (\<lambda>i. i \<notin> fst ` set (take n (task_results p))) (in_flight p)
      \<and> task_results p' = drop n (task_results p)"
  using assms process_results [where rs = "rev (take n (task_results p))" and p = "p\<lparr>task_results := drop n (task_results p)\<rparr>"]
  by (auto simp: wait_and_process_def Let_def split: if_splits)

lemma cleanup_effect:
  assumes "cleanup_completed_objects id_to_string fault p t = (p', t', r)" "\<forall>e. fault \<noteq> AppliedThenLost e"
  shows "p' = p \<and> t' = t
    \<or> t' = fst (delete_queued_objects t (map id_to_string (completed_objects p)) (processor_id p)) \<and> completed_objects p' = []
       \<and> in_flight p' = in_flight p \<and> task_results p' = task_results p \<and> requeue_list p' = requeue_list p
       \<and> processor_id p' = processor_id p"
  using assms by (cases fault) (auto simp: cleanup_completed_objects_def split: if_splits)

lemma requeue_effect:
  assumes "requeue_transitioned_objects id_to_string fault clk p t = (p', t', r)"
  shows "t' = t \<or> t' = fst (queue_objects clk t (map id_to_string (requeue_list p)))"
    "in_flight p' = in_flight p" "completed_objects p' = completed_objects p" "task_results p' = task_results p"
    "processor_id p' = processor_id p"
  using assms by (cases fault; auto simp: requeue_transitioned_objects_def split: if_splits)+

lemma emit_metrics_frame:
  "in_flight (fst (emit_metrics_if_necessary names cfg c p)) = in_flight p"
  "completed_objects (fst (emit_metrics_if_necessary names cfg c p)) = completed_objects p"
  "task_results (fst (emit_metrics_if_necessary names cfg c p)) = task_results p"
  "processor_id (fst (emit_metrics_if_necessary names cfg c p)) = processor_id p"
  "requeue_list (fst (emit_metrics_if_necessary names cfg c p)) = requeue_list p"
  by (simp_all add: emit_metrics_if_necessary_def emit_metrics_def Let_def)

section \<open>Any number of processors on one queue\<close>

text \<open>A running task is its processor, its object and the time at which the object was acquired.\<close>

record ('o, 'cs) world =
  w_clk :: int
  w_queue :: queue_table
  w_proc :: "string \<Rightarrow> ('o, 'cs) processor"
  w_tasks :: "(string \<times> 'o \<times> int) list"

definition pending :: "('o, 'cs) processor \<Rightarrow> 'o set" where
  "pending p = fst ` set (task_results p) \<union> set (completed_objects p)"

definition unfinished :: "('o, 'cs) world \<Rightarrow> string \<Rightarrow> 'o \<Rightarrow> bool" where
  "unfinished w pid i \<longleftrightarrow> (\<exists>s. (pid, i, s) \<in> set (w_tasks w)) \<or> i \<in> pending (w_proc w pid)"

text \<open>
  The steps. Time passes only as far as every task ends, and its entry is deleted, within \<open>max_outdated\<close> of the
  acquisition: tasks run under a timeout of a third of it, and a processor deletes the entries of finished tasks in
  its next iterations. A deletion that fails was not applied. Everything else is arbitrary: which rows are locked, how
  transactions to acquire and to queue fail, when tasks end or panic, and how many results a processor receives.
\<close>

inductive world_step ::
    "(string \<Rightarrow> 'o option) \<Rightarrow> ('o \<Rightarrow> string) \<Rightarrow> iteration_config \<Rightarrow> ('o, 'cs) world \<Rightarrow> ('o, 'cs) world \<Rightarrow> bool"
  for id_from_str id_to_string cfg where
  tick: "w_clk w \<le> c \<Longrightarrow>
    (\<And>pid i s. unfinished w pid i \<Longrightarrow> view (w_queue w) (id_to_string i) = Some (Some pid, s) \<Longrightarrow> c \<le> s + max_outdated cfg) \<Longrightarrow>
    world_step id_from_str id_to_string cfg w (w\<lparr>w_clk := c\<rparr>)"
| dispatch: "dequeue_and_dispatch id_from_str cfg locked fault (w_clk w) (w_proc w pid) (w_queue w) = (p', t', r) \<Longrightarrow>
    world_step id_from_str id_to_string cfg w (w\<lparr>w_proc := (w_proc w)(pid := p'), w_queue := t',
      w_tasks := w_tasks w @ (case r of Inl _ \<Rightarrow> [] | Inr objects \<Rightarrow> map (\<lambda>i. (pid, i, w_clk w)) objects)\<rparr>)"
| task_ends: "(pid, i, s) \<in> set (w_tasks w) \<Longrightarrow>
    world_step id_from_str id_to_string cfg w (w\<lparr>w_tasks := removeAll (pid, i, s) (w_tasks w),
      w_proc := (w_proc w)(pid := (w_proc w pid)\<lparr>task_results := task_results (w_proc w pid) @ [(i, metrics)]\<rparr>)\<rparr>)"
| task_panics: "(pid, i, s) \<in> set (w_tasks w) \<Longrightarrow>
    world_step id_from_str id_to_string cfg w (w\<lparr>w_tasks := removeAll (pid, i, s) (w_tasks w)\<rparr>)"
| receive: "wait_and_process allow_requeue n instant (w_proc w pid) = (p', k) \<Longrightarrow>
    world_step id_from_str id_to_string cfg w (w\<lparr>w_proc := (w_proc w)(pid := p')\<rparr>)"
| cleanup: "cleanup_completed_objects id_to_string fault (w_proc w pid) (w_queue w) = (p', t', r) \<Longrightarrow>
    (\<And>e. fault \<noteq> AppliedThenLost e) \<Longrightarrow>
    world_step id_from_str id_to_string cfg w (w\<lparr>w_proc := (w_proc w)(pid := p'), w_queue := t'\<rparr>)"
| requeue: "requeue_transitioned_objects id_to_string fault (w_clk w) (w_proc w pid) (w_queue w) = (p', t', r) \<Longrightarrow>
    world_step id_from_str id_to_string cfg w (w\<lparr>w_proc := (w_proc w)(pid := p'), w_queue := t'\<rparr>)"
| emit: "fst (emit_metrics_if_necessary names cfg instant (w_proc w pid)) = p' \<Longrightarrow>
    world_step id_from_str id_to_string cfg w (w\<lparr>w_proc := (w_proc w)(pid := p')\<rparr>)"
| enqueue: "fst (queue_objects (w_clk w) (w_queue w) (map id_to_string objects)) = t' \<Longrightarrow>
    world_step id_from_str id_to_string cfg w (w\<lparr>w_queue := t'\<rparr>)"

definition start_world :: "int \<Rightarrow> ('o, 'cs) world" where
  "start_world clk = \<lparr>w_clk = clk, w_queue = [], w_proc = new_processor, w_tasks = []\<rparr>"

definition world_ok :: "('o \<Rightarrow> string) \<Rightarrow> iteration_config \<Rightarrow> ('o, 'cs) world \<Rightarrow> bool" where
  "world_ok id_to_string cfg w \<longleftrightarrow>
     primary_key (w_queue w) \<and> queued_ids (w_queue w) \<subseteq> range id_to_string
     \<and> (\<forall>pid. processor_id (w_proc w pid) = pid \<and> length (in_flight (w_proc w pid)) \<le> max_concurrency cfg
          \<and> distinct (map fst (task_results (w_proc w pid)) @ completed_objects (w_proc w pid)))
     \<and> (\<forall>pid i s. (pid, i, s) \<in> set (w_tasks w) \<longrightarrow> i \<notin> pending (w_proc w pid) \<and> i \<in> set (in_flight (w_proc w pid)))
     \<and> distinct (map (fst \<circ> snd) (w_tasks w))
     \<and> (\<forall>pid i. unfinished w pid i \<longrightarrow>
          (\<exists>s. view (w_queue w) (id_to_string i) = Some (Some pid, s) \<and> w_clk w \<le> s + max_outdated cfg))"

lemma world_okI:
  assumes "primary_key (w_queue w)" "queued_ids (w_queue w) \<subseteq> range id_to_string"
    and "\<And>pid. processor_id (w_proc w pid) = pid \<and> length (in_flight (w_proc w pid)) \<le> max_concurrency cfg
          \<and> distinct (map fst (task_results (w_proc w pid)) @ completed_objects (w_proc w pid))"
    and "\<And>pid i s. (pid, i, s) \<in> set (w_tasks w) \<Longrightarrow> i \<notin> pending (w_proc w pid) \<and> i \<in> set (in_flight (w_proc w pid))"
    and "distinct (map (fst \<circ> snd) (w_tasks w))"
    and "\<And>pid i. unfinished w pid i \<Longrightarrow>
          \<exists>s. view (w_queue w) (id_to_string i) = Some (Some pid, s) \<and> w_clk w \<le> s + max_outdated cfg"
  shows "world_ok id_to_string cfg w"
  using assms unfolding world_ok_def by blast

lemma world_okD:
  assumes "world_ok id_to_string cfg w"
  shows "primary_key (w_queue w)" "queued_ids (w_queue w) \<subseteq> range id_to_string"
    and "processor_id (w_proc w pid) = pid" "length (in_flight (w_proc w pid)) \<le> max_concurrency cfg"
      "distinct (map fst (task_results (w_proc w pid)) @ completed_objects (w_proc w pid))"
    and "(pid, i, s) \<in> set (w_tasks w) \<Longrightarrow> i \<notin> pending (w_proc w pid) \<and> i \<in> set (in_flight (w_proc w pid))"
    and "distinct (map (fst \<circ> snd) (w_tasks w))"
    and "unfinished w pid i \<Longrightarrow>
          \<exists>s. view (w_queue w) (id_to_string i) = Some (Some pid, s) \<and> w_clk w \<le> s + max_outdated cfg"
  using assms unfolding world_ok_def by blast+

lemma start_world_ok: "world_ok id_to_string cfg (start_world clk)"
  by (simp add: world_ok_def start_world_def new_processor_def primary_key_def unfinished_def pending_def)

lemma pending_same: "completed_objects p' = completed_objects p \<Longrightarrow> task_results p' = task_results p \<Longrightarrow> pending p' = pending p"
  by (simp add: pending_def)

lemma dispatch_ok:
  assumes ok: "world_ok id_to_string cfg w" and rt: "\<And>i. id_from_str (id_to_string i) = Some i"
    and d: "dequeue_and_dispatch id_from_str cfg locked fault (w_clk w) (w_proc w pid) (w_queue w) = (p', t', r)"
  shows "world_ok id_to_string cfg (w\<lparr>w_proc := (w_proc w)(pid := p'), w_queue := t',
      w_tasks := w_tasks w @ (case r of Inl _ \<Rightarrow> [] | Inr objects \<Rightarrow> map (\<lambda>i. (pid, i, w_clk w)) objects)\<rparr>)"
    (is "world_ok _ _ ?w")
proof -
  note pid = world_okD(3) [OF ok, of pid]
  obtain ids where e: "primary_key t'" "queued_ids t' = queued_ids (w_queue w)" "distinct ids"
    "\<And>x. view t' x = (if x \<in> set ids then Some (Some (processor_id (w_proc w pid)), w_clk w) else view (w_queue w) x)"
    "\<And>x. x \<in> set ids \<Longrightarrow> \<exists>own s. view (w_queue w) x = Some (own, s) \<and> (own = None \<or> s + max_outdated cfg < w_clk w)"
    "\<And>objects. r = Inr objects \<Longrightarrow> objects = List.map_filter id_from_str ids"
    "processor_id p' = processor_id (w_proc w pid)" "completed_objects p' = completed_objects (w_proc w pid)"
    "task_results p' = task_results (w_proc w pid)" "requeue_list p' = requeue_list (w_proc w pid)"
    "set (in_flight p') = set (in_flight (w_proc w pid)) \<union> (case r of Inl _ \<Rightarrow> {} | Inr objects \<Rightarrow> set objects)"
    "length (in_flight (w_proc w pid)) \<le> max_concurrency cfg \<longrightarrow> length (in_flight p') \<le> max_concurrency cfg"
    by (rule dispatch_effect [OF world_okD(1) [OF ok] d]) (rule that)
  define objs where "objs = (case r of Inl _ \<Rightarrow> [] | Inr objects \<Rightarrow> objects)"
  have tasks: "w_tasks ?w = w_tasks w @ map (\<lambda>i. (pid, i, w_clk w)) objs" by (simp add: objs_def split: sum.split)
  have busy: "id_to_string i \<notin> set ids" if "unfinished w pid' i" for pid' i
    using e(5) [of "id_to_string i"] world_okD(8) [OF ok that] by auto
  have id: "x = id_to_string i" if "x \<in> set ids" "id_from_str x = Some i" for x i
  proof -
    have "x \<in> queued_ids (w_queue w)" using e(5) [OF that(1)] view_None_iff by (metis option.distinct(1))
    then obtain j where "x = id_to_string j" using world_okD(2) [OF ok] by blast
    with that(2) rt show ?thesis by simp
  qed
  have objs: "id_to_string i \<in> set ids" if "i \<in> set objs" for i
    using that e(6) id by (auto simp: objs_def map_filter_mem split: sum.splits)
  have new: "\<not> unfinished w pid' i" if "i \<in> set objs" for pid' i using busy objs that by blast
  have "distinct (List.map_filter id_from_str ids)"
  proof (rule distinct_map_filter_inj [OF e(3)])
    fix x y z assume "x \<in> set ids" "y \<in> set ids" "id_from_str x = Some z" "id_from_str y = Some z"
    then show "x = y" using id [of x z] id [of y z] by simp
  qed
  then have dist: "distinct objs" using e(6) by (auto simp: objs_def split: sum.splits)
  have un: "unfinished ?w pid' i \<longleftrightarrow> unfinished w pid' i \<or> pid' = pid \<and> i \<in> set objs" for pid' i
    using pending_same [OF e(8,9)] unfolding unfinished_def tasks by (auto simp: pending_def e(8,9))
  show ?thesis
  proof (rule world_okI)
    show "primary_key (w_queue ?w)" "queued_ids (w_queue ?w) \<subseteq> range id_to_string"
      using e(1,2) world_okD(2) [OF ok] by simp_all
    show "processor_id (w_proc ?w q) = q \<and> length (in_flight (w_proc ?w q)) \<le> max_concurrency cfg
          \<and> distinct (map fst (task_results (w_proc ?w q)) @ completed_objects (w_proc ?w q))" for q
      using world_okD(3-5) [OF ok, of q] world_okD(4) [OF ok, of pid] e(7-9,12) pid by auto
    show "i \<notin> pending (w_proc ?w q) \<and> i \<in> set (in_flight (w_proc ?w q))" if "(q, i, s) \<in> set (w_tasks ?w)" for q i s
      using that world_okD(6) [OF ok, of q i s] new [of i pid] e(11) pending_same [OF e(8,9)]
      unfolding tasks by (auto simp: unfinished_def objs_def split: sum.splits)
    have "i \<notin> set objs" if "(q, i, s) \<in> set (w_tasks w)" for q i s
      using new that unfolding unfinished_def by blast
    then show "distinct (map (fst \<circ> snd) (w_tasks ?w))"
      using world_okD(7) [OF ok] dist unfolding tasks by (auto simp: comp_def)
    show "\<exists>s. view (w_queue ?w) (id_to_string i) = Some (Some q, s) \<and> w_clk ?w \<le> s + max_outdated cfg" if "unfinished ?w q i" for q i
      using that world_okD(8) [OF ok, of q i] busy [of q i] objs [of i] by (auto simp: un e(4) pid max_outdated_def)
  qed
qed

text \<open>The steps that only remove work or move it along.\<close>

lemma fewer_tasks_ok:
  assumes ok: "world_ok id_to_string cfg w" and "set tasks \<subseteq> set (w_tasks w)" "distinct (map (fst \<circ> snd) tasks)"
  shows "world_ok id_to_string cfg (w\<lparr>w_tasks := tasks\<rparr>)" (is "world_ok _ _ ?w")
proof (rule world_okI)
  have "unfinished w q i" if "unfinished ?w q i" for q i
    using that assms(2) unfolding unfinished_def by auto
  then show "\<exists>s. view (w_queue ?w) (id_to_string i) = Some (Some q, s) \<and> w_clk ?w \<le> s + max_outdated cfg" if "unfinished ?w q i" for q i
    using that world_okD(8) [OF ok, of q i] by simp
  show "i \<notin> pending (w_proc ?w q) \<and> i \<in> set (in_flight (w_proc ?w q))" if "(q, i, s) \<in> set (w_tasks ?w)" for q i s
    using that assms(2) world_okD(6) [OF ok, of q i s] by auto
  show "processor_id (w_proc ?w q) = q \<and> length (in_flight (w_proc ?w q)) \<le> max_concurrency cfg
          \<and> distinct (map fst (task_results (w_proc ?w q)) @ completed_objects (w_proc ?w q))" for q
    using world_okD(3-5) [OF ok, of q] by simp
qed (simp_all add: assms(3) world_okD(1,2) [OF ok])

lemma removed_task:
  assumes "distinct (map (fst \<circ> snd) ts)" "(pid, i, s) \<in> set ts"
  shows "distinct (map (fst \<circ> snd) (removeAll (pid, i, s) ts))" "(q, i, u) \<notin> set (removeAll (pid, i, s) ts)"
proof -
  show "distinct (map (fst \<circ> snd) (removeAll (pid, i, s) ts))"
    using assms(1) by (simp add: removeAll_filter_not_eq distinct_map_filter)
  have "(q, i, u) = (pid, i, s)" if "(q, i, u) \<in> set ts"
    using inj_onD [OF conjunct2 [OF distinct_map [THEN iffD1, OF assms(1)]], of "(q, i, u)" "(pid, i, s)"] that assms(2) by simp
  then show "(q, i, u) \<notin> set (removeAll (pid, i, s) ts)" by auto
qed

lemma task_ends_ok:
  assumes ok: "world_ok id_to_string cfg w" and t: "(pid, i, s) \<in> set (w_tasks w)"
  shows "world_ok id_to_string cfg (w\<lparr>w_tasks := removeAll (pid, i, s) (w_tasks w),
      w_proc := (w_proc w)(pid := (w_proc w pid)\<lparr>task_results := task_results (w_proc w pid) @ [(i, m)]\<rparr>)\<rparr>)" (is "world_ok _ _ ?w")
proof (rule world_okI)
  have i: "i \<notin> pending (w_proc w pid)" using world_okD(6) [OF ok t] by blast
  show "processor_id (w_proc ?w q) = q \<and> length (in_flight (w_proc ?w q)) \<le> max_concurrency cfg
          \<and> distinct (map fst (task_results (w_proc ?w q)) @ completed_objects (w_proc ?w q))" for q
    using world_okD(3-5) [OF ok, of q] i by (auto simp: pending_def)
  show "j \<notin> pending (w_proc ?w q) \<and> j \<in> set (in_flight (w_proc ?w q))" if "(q, j, u) \<in> set (w_tasks ?w)" for q j u
    using that world_okD(6) [OF ok, of q j u] removed_task(2) [OF world_okD(7) [OF ok] t, of q u] by (auto simp: pending_def)
  have "unfinished w q j" if "unfinished ?w q j" for q j
    using that t by (auto simp: unfinished_def pending_def split: if_splits)
  then show "\<exists>s. view (w_queue ?w) (id_to_string j) = Some (Some q, s) \<and> w_clk ?w \<le> s + max_outdated cfg" if "unfinished ?w q j" for q j
    using that world_okD(8) [OF ok, of q j] by simp
qed (simp_all add: world_okD(1,2) [OF ok] removed_task(1) [OF world_okD(7) [OF ok] t] del: map_map)

lemma queued_ids_queue_objects: "queued_ids (fst (queue_objects clk t is)) = queued_ids t \<union> set is"
  by (auto simp: queue_objects_eq insert_on_conflict_eq queued_ids_def [of "map _ _"] image_image)

text \<open>A step of one processor that leaves the queue alone or adds entries to it.\<close>

lemma proc_step_ok:
  assumes ok: "world_ok id_to_string cfg w" and "processor_id p' = pid" "length (in_flight p') \<le> max_concurrency cfg"
    and "distinct (map fst (task_results p') @ completed_objects p')" "pending p' \<subseteq> pending (w_proc w pid)"
    and "\<And>i s. (pid, i, s) \<in> set (w_tasks w) \<Longrightarrow> i \<in> set (in_flight p')"
    and t': "t' = w_queue w \<or> t' = fst (queue_objects clk (w_queue w) (map id_to_string objects))"
  shows "world_ok id_to_string cfg (w\<lparr>w_proc := (w_proc w)(pid := p'), w_queue := t'\<rparr>)" (is "world_ok _ _ ?w")
proof (rule world_okI)
  have view: "view t' x = Some y" if "view (w_queue w) x = Some y" for x y
    using t' that view_queue_objects [of clk "w_queue w"] by auto
  show "queued_ids (w_queue ?w) \<subseteq> range id_to_string" using t' world_okD(2) [OF ok] by (auto simp: queued_ids_queue_objects)
  show "primary_key (w_queue ?w)" using t' world_okD(1) [OF ok] primary_key_queue_objects by auto
  have "unfinished w q i" if "unfinished ?w q i" for q i
    using that assms(5) by (auto simp: unfinished_def split: if_splits)
  then show "\<exists>s. view (w_queue ?w) (id_to_string i) = Some (Some q, s) \<and> w_clk ?w \<le> s + max_outdated cfg" if "unfinished ?w q i" for q i
    using that world_okD(8) [OF ok, of q i] view [of "id_to_string i"] by auto
  show "processor_id (w_proc ?w q) = q \<and> length (in_flight (w_proc ?w q)) \<le> max_concurrency cfg
          \<and> distinct (map fst (task_results (w_proc ?w q)) @ completed_objects (w_proc ?w q))" for q
    using world_okD(3-5) [OF ok, of q] assms(2-4) by auto
  show "i \<notin> pending (w_proc ?w q) \<and> i \<in> set (in_flight (w_proc ?w q))" if "(q, i, s) \<in> set (w_tasks ?w)" for q i s
    using that world_okD(6) [OF ok, of q i s] assms(5) assms(6) [of i s] by auto
qed (simp add: world_okD(7) [OF ok])

lemma cleanup_ok:
  assumes ok: "world_ok id_to_string cfg w" and rt: "\<And>i. id_from_str (id_to_string i) = Some i"
    and "cleanup_completed_objects id_to_string fault (w_proc w pid) (w_queue w) = (p', t', r)" "\<And>e. fault \<noteq> AppliedThenLost e"
  shows "world_ok id_to_string cfg (w\<lparr>w_proc := (w_proc w)(pid := p'), w_queue := t'\<rparr>)" (is "world_ok _ _ ?w")
proof -
  consider "p' = w_proc w pid" "t' = w_queue w"
    | (deleted) "t' = fst (delete_queued_objects (w_queue w) (map id_to_string (completed_objects (w_proc w pid))) pid)"
      "completed_objects p' = []" "in_flight p' = in_flight (w_proc w pid)" "task_results p' = task_results (w_proc w pid)"
      "processor_id p' = pid"
    using cleanup_effect [OF assms(3)] assms(4) world_okD(3) [OF ok, of pid] by auto
  then show ?thesis
  proof cases
    case 1
    with proc_step_ok [OF ok, of p' pid t' 0 "[]"] world_okD(3-6) [OF ok, of pid] show ?thesis by auto
  next
    case deleted
    have view: "view t' x = (if x \<in> id_to_string ` set (completed_objects (w_proc w pid)) \<and> (\<exists>s. view (w_queue w) x = Some (Some pid, s))
        then None else view (w_queue w) x)" for x
      unfolding deleted(1) using delete_view(2) [OF world_okD(1) [OF ok]] by simp
    have inj: "id_to_string i = id_to_string j \<longleftrightarrow> i = j" for i j using rt by (metis option.inject)
    have disj: "i \<notin> set (completed_objects (w_proc w pid))" if "(pid, i, s) \<in> set (w_tasks w) \<or> i \<in> fst ` set (task_results (w_proc w pid))" for i s
      using that world_okD(5) [OF ok, of pid] world_okD(6) [OF ok, of pid i s] by (auto simp: pending_def)
    show ?thesis
    proof (rule world_okI)
      show "primary_key (w_queue ?w)" using deleted(1) delete_view(1) [OF world_okD(1) [OF ok]] by simp
      have "queued_ids t' \<subseteq> queued_ids (w_queue w)"
        using view view_None_iff by (metis (no_types, lifting) option.distinct(1) subsetI)
      then show "queued_ids (w_queue ?w) \<subseteq> range id_to_string" using world_okD(2) [OF ok] by auto
      show "processor_id (w_proc ?w q) = q \<and> length (in_flight (w_proc ?w q)) \<le> max_concurrency cfg
          \<and> distinct (map fst (task_results (w_proc ?w q)) @ completed_objects (w_proc ?w q))" for q
        using world_okD(3-5) [OF ok, of q] deleted by auto
      show "i \<notin> pending (w_proc ?w q) \<and> i \<in> set (in_flight (w_proc ?w q))" if "(q, i, s) \<in> set (w_tasks ?w)" for q i s
        using that world_okD(6) [OF ok, of q i s] deleted by (auto simp: pending_def)
      show "distinct (map (fst \<circ> snd) (w_tasks ?w))" using world_okD(7) [OF ok] by simp
      show "\<exists>s. view (w_queue ?w) (id_to_string i) = Some (Some q, s) \<and> w_clk ?w \<le> s + max_outdated cfg" if u: "unfinished ?w q i" for q i
      proof -
        have "unfinished w q i" using u deleted by (auto simp: unfinished_def pending_def split: if_splits)
        then obtain s where "view (w_queue w) (id_to_string i) = Some (Some q, s)" "w_clk w \<le> s + max_outdated cfg"
          using world_okD(8) [OF ok] by blast
        moreover have "q = pid \<Longrightarrow> i \<notin> set (completed_objects (w_proc w pid))"
          using u deleted disj by (auto simp: unfinished_def pending_def)
        ultimately show ?thesis by (auto simp: view inj)
      qed
    qed
  qed
qed

lemma wait_pending:
  assumes "wait_and_process allow_requeue n instant p = (p', k)"
  shows "pending p' \<subseteq> pending p"
    "distinct (map fst (task_results p) @ completed_objects p) \<Longrightarrow> distinct (map fst (task_results p') @ completed_objects p')"
    "i \<notin> pending p \<Longrightarrow> i \<in> set (in_flight p) \<Longrightarrow> i \<in> set (in_flight p')" "length (in_flight p') \<le> length (in_flight p)"
proof -
  define xs where "xs = map fst (task_results p)"
  have xs: "fst ` set (take n (task_results p)) = set (take n xs)" "map fst (drop n (task_results p)) = drop n xs"
    "fst ` set (task_results p) = set xs"
    by (simp_all add: xs_def take_map drop_map flip: set_map)
  consider (same) "p' = p" | (moved) "set (completed_objects p') = set (take n xs) \<union> set (completed_objects p)"
      "in_flight p' = filter (\<lambda>i. i \<notin> set (take n xs)) (in_flight p)" "map fst (task_results p') = drop n xs"
    using wait_effect(1) [OF assms] unfolding xs(1) xs(2) [symmetric] by auto
  note cs = this
  have f: "fst ` set (task_results p') = set (map fst (task_results p'))" by simp
  show "pending p' \<subseteq> pending p"
    by (rule cs) (auto simp: pending_def f xs(3) simp del: set_map dest: in_set_takeD in_set_dropD)
  show "i \<in> set (in_flight p')" if "i \<notin> pending p" "i \<in> set (in_flight p)"
    by (rule cs) (use that in \<open>auto simp: pending_def xs(3) dest: in_set_takeD\<close>)
  show "length (in_flight p') \<le> length (in_flight p)" by (rule cs) auto
  show "distinct (map fst (task_results p') @ completed_objects p')" if "distinct (map fst (task_results p) @ completed_objects p)"
  proof (rule cs)
    assume "p' = p"
    then show ?thesis using that by simp
  next
    assume m: "set (completed_objects p') = set (take n xs) \<union> set (completed_objects p)" "map fst (task_results p') = drop n xs"
    have d: "distinct xs" "distinct (completed_objects p)" "set xs \<inter> set (completed_objects p) = {}"
      using that by (simp_all add: xs_def)
    have "set (drop n xs) \<inter> set (take n xs) = {}" using set_take_disj_set_drop_if_distinct [OF d(1), of n n] by blast
    moreover have "set (drop n xs) \<subseteq> set xs" by (rule set_drop_subset)
    ultimately have "set (drop n xs) \<inter> set (completed_objects p') = {}" using d(3) m(1) by blast
    then show ?thesis using d(1) wait_effect(2) [OF assms d(2)] m(2) by simp
  qed
qed

lemma world_step_ok:
  assumes "world_step id_from_str id_to_string cfg w w'" and ok: "world_ok id_to_string cfg w"
    and rt: "\<And>i. id_from_str (id_to_string i) = Some i"
  shows "world_ok id_to_string cfg w'"
  using assms(1)
proof cases
  case (tick c)
  have un: "unfinished w' q i = unfinished w q i" for q i by (simp add: unfinished_def tick(1))
  show ?thesis
  proof (rule world_okI)
    show "\<exists>s. view (w_queue w') (id_to_string i) = Some (Some q, s) \<and> w_clk w' \<le> s + max_outdated cfg" if u: "unfinished w' q i" for q i
      using tick(3) [of q i] world_okD(8) [OF ok, of q i] u [unfolded un] by (auto simp: tick(1))
    show "processor_id (w_proc w' q) = q \<and> length (in_flight (w_proc w' q)) \<le> max_concurrency cfg
          \<and> distinct (map fst (task_results (w_proc w' q)) @ completed_objects (w_proc w' q))" for q
      using world_okD(3-5) [OF ok, of q] by (simp add: tick(1))
  qed (use world_okD(1,2,6,7) [OF ok] in \<open>simp_all add: tick(1)\<close>)
next
  case (dispatch locked fault pid p' t' r)
  then show ?thesis using dispatch_ok [OF ok rt] by blast
next
  case (task_ends pid i s metrics)
  then show ?thesis using task_ends_ok [OF ok] by blast
next
  case (task_panics pid i s)
  have "distinct (map (fst \<circ> snd) (removeAll (pid, i, s) (w_tasks w)))" by (rule removed_task(1) [OF world_okD(7) [OF ok] task_panics(2)])
  with task_panics show ?thesis by (simp only: fewer_tasks_ok [OF ok] set_removeAll Diff_subset)
next
  case (receive allow_requeue n instant pid p' k)
  note e = wait_pending [OF receive(2)]
  have "world_ok id_to_string cfg (w\<lparr>w_proc := (w_proc w)(pid := p'), w_queue := w_queue w\<rparr>)"
  proof (rule proc_step_ok [OF ok])
    show "processor_id p' = pid" using wait_effect(3) [OF receive(2)] world_okD(3) [OF ok, of pid] by simp
    show "length (in_flight p') \<le> max_concurrency cfg" using e(4) world_okD(4) [OF ok, of pid] by simp
    show "i \<in> set (in_flight p')" if "(pid, i, s) \<in> set (w_tasks w)" for i s using e(3) world_okD(6) [OF ok that] by blast
  qed (use e(1) e(2) [OF world_okD(5) [OF ok]] in auto)
  with receive show ?thesis by simp
next
  case (cleanup fault pid p' t' r)
  then show ?thesis using cleanup_ok [OF ok rt] by blast
next
  case (requeue fault pid p' t' r)
  note e = requeue_effect [OF requeue(2)]
  have "world_ok id_to_string cfg (w\<lparr>w_proc := (w_proc w)(pid := p'), w_queue := t'\<rparr>)"
    by (rule proc_step_ok [OF ok _ _ _ _ _ e(1)]) (use e world_okD(3-6) [OF ok, of pid] in \<open>auto simp: pending_def\<close>)
  with requeue show ?thesis by simp
next
  case (emit names instant pid p')
  have "world_ok id_to_string cfg (w\<lparr>w_proc := (w_proc w)(pid := p'), w_queue := w_queue w\<rparr>)"
    unfolding emit(2) [symmetric]
    by (rule proc_step_ok [OF ok]) (use world_okD(3-6) [OF ok, of pid] in \<open>auto simp: pending_def emit_metrics_frame\<close>)
  with emit show ?thesis by simp
next
  case (enqueue objects t')
  have "world_ok id_to_string cfg (w\<lparr>w_proc := (w_proc w)(undefined := w_proc w undefined), w_queue := t'\<rparr>)"
    by (rule proc_step_ok [OF ok, where objects = objects and clk = "w_clk w"])
      (use world_okD(3-6) [OF ok, of undefined] enqueue in auto)
  with enqueue show ?thesis by simp
qed

section \<open>One task per object\<close>

lemma reachable_ok:
  assumes "(world_step id_from_str id_to_string cfg)\<^sup>*\<^sup>* (start_world clk) w" "\<And>i. id_from_str (id_to_string i) = Some i"
  shows "world_ok id_to_string cfg w"
  using assms(1) by (induction rule: rtranclp_induct) (auto intro: start_world_ok world_step_ok assms(2))


section \<open>An iteration is a sequence of these steps\<close>

lemma tasks_end:
  assumes "distinct (map fst rs)" "fst ` set rs \<subseteq> {i. \<exists>s. (pid, i, s) \<in> set (w_tasks w)}" "distinct (map (fst \<circ> snd) (w_tasks w))"
  shows "\<exists>ts. (world_step id_from_str id_to_string cfg)\<^sup>*\<^sup>* w
    (w\<lparr>w_tasks := ts, w_proc := (w_proc w)(pid := (w_proc w pid)\<lparr>task_results := task_results (w_proc w pid) @ rs\<rparr>)\<rparr>)"
  using assms
proof (induction rs arbitrary: w)
  case Nil
  have "w = w\<lparr>w_tasks := w_tasks w, w_proc := (w_proc w)(pid := (w_proc w pid)\<lparr>task_results := task_results (w_proc w pid) @ []\<rparr>)\<rparr>" by simp
  then show ?case by (metis rtranclp.rtrancl_refl)
next
  case (Cons r rs)
  obtain i m where r: "r = (i, m)" by fastforce
  obtain s where s: "(pid, i, s) \<in> set (w_tasks w)" using Cons.prems(2) r by auto
  let ?w = "w\<lparr>w_tasks := removeAll (pid, i, s) (w_tasks w),
      w_proc := (w_proc w)(pid := (w_proc w pid)\<lparr>task_results := task_results (w_proc w pid) @ [(i, m)]\<rparr>)\<rparr>"
  have sub: "fst ` set rs \<subseteq> {i. \<exists>s. (pid, i, s) \<in> set (w_tasks ?w)}" using Cons.prems(1,2) r by force
  have "distinct (map (fst \<circ> snd) (w_tasks ?w))" using removed_task(1) [OF Cons.prems(3) s] by simp
  moreover have "distinct (map fst rs)" using Cons.prems(1) by simp
  ultimately obtain ts where "(world_step id_from_str id_to_string cfg)\<^sup>*\<^sup>* ?w
      (?w\<lparr>w_tasks := ts, w_proc := (w_proc ?w)(pid := (w_proc ?w pid)\<lparr>task_results := task_results (w_proc ?w pid) @ rs\<rparr>)\<rparr>)"
    using Cons.IH [OF _ sub] by blast
  then have "(world_step id_from_str id_to_string cfg)\<^sup>*\<^sup>* ?w
      (w\<lparr>w_tasks := ts, w_proc := (w_proc w)(pid := (w_proc w pid)\<lparr>task_results := task_results (w_proc w pid) @ (i, m) # rs\<rparr>)\<rparr>)"
    by simp
  with world_step.task_ends [OF s, of id_from_str id_to_string cfg m] show ?case unfolding r by (meson converse_rtranclp_into_rtranclp)
qed


section \<open>What an outage does\<close>

definition quiet_env :: "int \<Rightarrow> (string, 'cs) processor_env" where
  "quiet_env clk = \<lparr>pe_clk = clk, pe_locked = \<lambda>_. False, pe_acquire = NoFault, pe_arrivals = [], pe_received = 0, pe_collected_at = 0,
     pe_before_cleanup = id, pe_cleanup = NoFault, pe_before_requeue = id, pe_requeue = NoFault, pe_requeue_clk = clk,
     pe_started_at = 0, pe_emitted_at = 0\<rparr>"

definition single_config :: iteration_config where
  "single_config = default_iteration_config\<lparr>max_concurrency := 1\<rparr>"

abbreviation iterate ::
    "(string, unit) processor_env \<Rightarrow> (string, unit) processor \<Rightarrow> queue_table
       \<Rightarrow> (string, unit) processor \<times> queue_table \<times> (string + nat \<times> nat)" where
  "iterate env \<equiv> run_single_iteration Some id (\<lambda>_. ([], [])) single_config env True"

lemmas iterate_simps = run_single_iteration_def dequeue_and_dispatch_def remaining_capacity_def max_outdated_def
  single_config_def default_iteration_config_def quiet_env_def new_processor_def acquire_queued_objects_def dequeued_ids_def
  is_available_def wait_and_process_def process_object_handling_task_result_def cleanup_completed_objects_def
  requeue_transitioned_objects_def delete_queued_objects_eq delete_where_def emit_metrics_if_necessary_def emit_metrics_def
  default_metrics_def map_filter_simps Let_def




section \<open>The loop over the queue ends\<close>

text \<open>A pass in which the database works, nobody else touches the queue, and results of objects in flight arrive, at least
  one if there are any.\<close>

definition healthy_pass ::
    "(string \<Rightarrow> 'o option) \<Rightarrow> iteration_config \<Rightarrow> ('o, 'cs) processor_env \<Rightarrow> ('o, 'cs) processor \<Rightarrow> queue_table \<Rightarrow> bool" where
  "healthy_pass id_from_str cfg env p t \<longleftrightarrow>
     pe_acquire env = NoFault \<and> pe_cleanup env = NoFault \<and> pe_requeue env = NoFault
     \<and> pe_before_cleanup env = id \<and> pe_before_requeue env = id
     \<and> (let flying = in_flight (fst (dequeue_and_dispatch id_from_str cfg (pe_locked env) NoFault (pe_clk env) p t))
        in fst ` set (pe_arrivals env) \<subseteq> set flying \<and> (flying \<noteq> [] \<longrightarrow> pe_arrivals env \<noteq> []))
     \<and> length (pe_arrivals env) \<le> pe_received env"

definition tidy :: "('o \<Rightarrow> string) \<Rightarrow> ('o, 'cs) processor \<Rightarrow> queue_table \<Rightarrow> bool" where
  "tidy id_to_string p t \<longleftrightarrow> primary_key t \<and> queued_ids t \<subseteq> range id_to_string
     \<and> completed_objects p = [] \<and> requeue_list p = [] \<and> task_results p = []
     \<and> (\<forall>i \<in> set (in_flight p). \<exists>s. view t (id_to_string i) = Some (Some (processor_id p), s))"

lemma dispatch_tidy:
  assumes tidy: "tidy id_to_string p t" and rt: "\<And>i. id_from_str (id_to_string i) = Some i"
    and d: "dequeue_and_dispatch id_from_str cfg locked fault clk p t = (p', t', r)"
  shows "tidy id_to_string p' t'" "queued_ids t' = queued_ids t" "processor_id p' = processor_id p"
proof -
  have pk: "primary_key t" using tidy by (simp add: tidy_def)
  obtain ids where e: "primary_key t'" "queued_ids t' = queued_ids t" "distinct ids"
    "\<And>x. view t' x = (if x \<in> set ids then Some (Some (processor_id p), clk) else view t x)"
    "\<And>x. x \<in> set ids \<Longrightarrow> \<exists>own s. view t x = Some (own, s) \<and> (own = None \<or> s + max_outdated cfg < clk)"
    "\<And>objects. r = Inr objects \<Longrightarrow> objects = List.map_filter id_from_str ids"
    "processor_id p' = processor_id p" "completed_objects p' = completed_objects p" "task_results p' = task_results p"
    "requeue_list p' = requeue_list p"
    "set (in_flight p') = set (in_flight p) \<union> (case r of Inl _ \<Rightarrow> {} | Inr objects \<Rightarrow> set objects)"
    "length (in_flight p) \<le> max_concurrency cfg \<longrightarrow> length (in_flight p') \<le> max_concurrency cfg"
    by (rule dispatch_effect [OF pk d]) (rule that)
  have "\<exists>s. view t' (id_to_string i) = Some (Some (processor_id p), s)" if i: "i \<in> set (in_flight p')" for i
  proof (cases "i \<in> set (in_flight p)")
    case True
    with tidy e(4) show ?thesis by (auto simp: tidy_def)
  next
    case False
    with i e(11) obtain objects where "r = Inr objects" "i \<in> set objects" by (auto split: sum.splits)
    with e(6) obtain x where x: "x \<in> set ids" "id_from_str x = Some i" by (auto simp: map_filter_mem)
    have "x \<in> queued_ids t" using e(5) [OF x(1)] view_None_iff by (metis option.distinct(1))
    then obtain j where "x = id_to_string j" using tidy by (auto simp: tidy_def)
    with x rt e(4) show ?thesis by simp
  qed
  with tidy e show "tidy id_to_string p' t'" "queued_ids t' = queued_ids t" "processor_id p' = processor_id p"
    by (simp_all add: tidy_def)
qed

lemma pass_progress:
  assumes tidy: "tidy id_to_string p t" and rt: "\<And>i. id_from_str (id_to_string i) = Some i" and h: "healthy_pass id_from_str cfg env p t"
    and run: "run_single_iteration id_from_str id_to_string names cfg env False p t = (p', t', r)"
  shows "tidy id_to_string p' t'" "card (queued_ids t') < card (queued_ids t) \<or> in_flight p' = [] \<and> card (queued_ids t') = card (queued_ids t)"
proof -
  obtain p1 t1 r1 where d: "dequeue_and_dispatch id_from_str cfg (pe_locked env) NoFault (pe_clk env) p t = (p1, t1, r1)" by (metis prod_cases3)
  note td = dispatch_tidy [OF tidy rt d]
  have "\<not> isl r1" using d by (auto simp: dequeue_and_dispatch_def Let_def split: if_splits)
  then obtain objects where r1: "r1 = Inr objects" by (cases r1) auto
  define p2 where "p2 = p1\<lparr>task_results := pe_arrivals env\<rparr>"
  obtain p3 k where w: "wait_and_process False (pe_received env) (pe_collected_at env) p2 = (p3, k)" by fastforce
  obtain p4 t4 r4 where c: "cleanup_completed_objects id_to_string NoFault p3 t1 = (p4, t4, r4)" by (metis prod_cases3)
  have r4: "r4 = Inr ()" using c by (auto simp: cleanup_completed_objects_def split: if_splits)
  have "requeue_list p3 = []" using wait_effect(4) [OF w] td(1) by (simp add: p2_def tidy_def)
  then have q: "requeue_list p4 = []" using cleanup_effect [OF c] by auto
  have res: "p' = fst (emit_metrics_if_necessary names cfg (pe_emitted_at env) p4)" "t' = t4"
    using run d r1 w c r4 q h td(1)
    by (simp_all add: run_single_iteration_def healthy_pass_def tidy_def p2_def requeue_transitioned_objects_def)
  have arr: "fst ` set (pe_arrivals env) \<subseteq> set (in_flight p1)" "in_flight p1 \<noteq> [] \<Longrightarrow> pe_arrivals env \<noteq> []"
    "take (pe_received env) (pe_arrivals env) = pe_arrivals env" "drop (pe_received env) (pe_arrivals env) = []"
    using h d by (simp_all add: healthy_pass_def Let_def)
  show "tidy id_to_string p' t'" "card (queued_ids t') < card (queued_ids t) \<or> in_flight p' = [] \<and> card (queued_ids t') = card (queued_ids t)"
  proof (atomize (full), cases "in_flight p1 = []")
    case True
    with arr(1) have "pe_arrivals env = []" by simp
    with True w td(1) have "p3 = p1\<lparr>task_results := []\<rparr>" by (simp add: p2_def wait_and_process_def)
    with c td(1) have "p4 = p1\<lparr>task_results := []\<rparr>" "t4 = t1" by (simp_all add: cleanup_completed_objects_def tidy_def)
    with True td(1,2) res show "tidy id_to_string p' t' \<and> (card (queued_ids t') < card (queued_ids t) \<or> in_flight p' = [] \<and> card (queued_ids t') = card (queued_ids t))"
      by (simp add: tidy_def emit_metrics_frame)
  next
    case False
    have p3: "set (completed_objects p3) = fst ` set (pe_arrivals env)" "in_flight p3 = filter (\<lambda>i. i \<notin> fst ` set (pe_arrivals env)) (in_flight p1)"
      "task_results p3 = []" "processor_id p3 = processor_id p1"
      using wait_effect(3,5) [OF w] False td(1) by (simp_all add: p2_def tidy_def arr(3,4))
    have "completed_objects p3 \<noteq> []" using p3(1) arr(2) [OF False] by auto
    with c have p4: "t4 = fst (delete_queued_objects t1 (map id_to_string (completed_objects p3)) (processor_id p3))" "completed_objects p4 = []"
      "in_flight p4 = in_flight p3" "task_results p4 = []" "processor_id p4 = processor_id p1"
      by (auto simp: cleanup_completed_objects_def p3)
    have pk: "primary_key t1" using td(1) by (simp add: tidy_def)
    have view: "view t4 x = (if x \<in> id_to_string ` fst ` set (pe_arrivals env) \<and> (\<exists>s. view t1 x = Some (Some (processor_id p1), s))
        then None else view t1 x)" for x
      unfolding p4(1) delete_view(2) [OF pk] by (simp add: p3(1,4))
    have inj: "id_to_string i = id_to_string j \<longleftrightarrow> i = j" for i j using rt by (metis option.inject)
    have sub: "queued_ids t4 \<subseteq> queued_ids t1" 
    proof
      fix x assume "x \<in> queued_ids t4"
      then show "x \<in> queued_ids t1" using view [of x] view_None_iff [of t4 x] view_None_iff [of t1 x] by (auto split: if_splits)
    qed
    obtain i where i: "i \<in> fst ` set (pe_arrivals env)" using arr(2) [OF False] by fastforce
    then obtain s where s: "view t1 (id_to_string i) = Some (Some (processor_id p1), s)" using arr(1) td(1) unfolding tidy_def by blast
    then have "id_to_string i \<in> queued_ids t1" using view_None_iff [of t1 "id_to_string i"] by auto
    moreover have "view t4 (id_to_string i) = None" using view [of "id_to_string i"] i s by simp
    then have "id_to_string i \<notin> queued_ids t4" by (simp add: view_None_iff)
    ultimately have "card (queued_ids t4) < card (queued_ids t1)" using sub by (intro psubset_card_mono) (auto simp: queued_ids_def)
    moreover have "\<exists>s. view t4 (id_to_string j) = Some (Some (processor_id p1), s)" if "j \<in> set (in_flight p4)" for j
      using that td(1) view [of "id_to_string j"] by (auto simp: p4 p3 tidy_def inj image_iff)
    moreover have "queued_ids t4 \<subseteq> range id_to_string" "primary_key t4"
      using sub td(1) delete_view(1) [OF pk] by (auto simp: p4(1) tidy_def)
    ultimately show "tidy id_to_string p' t' \<and> (card (queued_ids t') < card (queued_ids t) \<or> in_flight p' = [] \<and> card (queued_ids t') = card (queued_ids t))"
      using res p4 q td(2) by (simp add: tidy_def emit_metrics_frame)
  qed
qed


section \<open>Witnesses\<close>

definition x_queued :: "string option \<Rightarrow> queue_table" where
  "x_queued own = [\<lparr>object_id = ''x'', processed_by = own, processing_started_at = 0\<rparr>]"

lemma dispatch_x:
  "dequeue_and_dispatch Some single_config (\<lambda>_. False) NoFault 0 (new_processor ''A'') (x_queued None)
     = ((new_processor ''A'' :: (string, unit) processor)\<lparr>in_flight := [''x''],
          proc_stats := (proc_stats (new_processor ''A'' :: (string, unit) processor))\<lparr>st_dispatched := 1\<rparr>\<rparr>, x_queued (Some ''A''), Inr [''x''])"
  by (simp add: iterate_simps x_queued_def)


definition x_arrives :: "(string, unit) processor_env" where
  "x_arrives = (quiet_env 0)\<lparr>pe_arrivals := [(''x'', default_metrics)], pe_received := 1\<rparr>"


definition all_arrive :: "nat \<Rightarrow> (string, unit) processor \<Rightarrow> queue_table \<Rightarrow> (string, unit) processor_env" where
  "all_arrive n p t = (let rs = map (\<lambda>i. (i, default_metrics)) (in_flight (fst (dequeue_and_dispatch Some single_config (\<lambda>_. False) NoFault 0 p t)))
     in (quiet_env 0)\<lparr>pe_arrivals := rs, pe_received := length rs\<rparr>)"


end
