(* ===== verification/Segment_Table.thy ===== *)
theory Segment_Table
  imports State_Handler State_History Ip_Allocator Resource_Pool "HOL-Library.AList"
begin

text \<open>
  Network segments (\<open>src/crates/api-model/src/network_segment/mod.rs\<close>, \<open>network_prefix.rs\<close>) and their
  tables (\<open>src/crates/api-db/src/network_segment.rs\<close>, \<open>network_prefix.rs\<close>): the lifecycle states, the
  conversion of a creation request, the queries and updates, and the schema constraints of
  \<open>src/crates/api-db/migrations\<close> that the statements run against.

  The record \<open>segment_db\<close> holds the tables. Segments are keyed by their identifier. A row of
  \<open>machine_interfaces\<close> is its segment with the addresses of the interface, a row of
  \<open>instance_addresses\<close> its segment with the allocated network. Parsing and printing of networks belong to
  the \<open>ipnetwork\<close> crate and are arguments.
\<close>

section \<open>Segments\<close>

datatype 'd segment_deletion_state = DrainAllocatedIps (delete_at: 'd) | DBDelete

datatype 'd segment_state = SegProvisioning | SegReady | SegDeleting "'d segment_deletion_state"

datatype segment_type = Tenant | Admin | Underlay | HostInband

datatype allocation_strategy = Dynamic | Reserved

datatype definition_segment_type = DefAdmin | DefUnderlay

record network_definition =
  nd_segment_type :: definition_segment_type
  nd_prefix :: string
  nd_gateway :: string
  nd_mtu :: int
  nd_reserve_first :: int
  nd_allocation_strategy :: allocation_strategy

definition is_tenant :: "segment_type \<Rightarrow> bool" where
  "is_tenant ty \<longleftrightarrow> ty = Tenant \<or> ty = HostInband"

text \<open>The discriminant, \<open>as i32\<close>, and the numbers of the protobuf enumeration.\<close>

fun segment_type_as_i32 :: "segment_type \<Rightarrow> int" where
  "segment_type_as_i32 Tenant = 0"
| "segment_type_as_i32 Admin = 1"
| "segment_type_as_i32 Underlay = 2"
| "segment_type_as_i32 HostInband = 3"

datatype rpc_error =
    IdentifierSpecifiedForNewObject string
  | InvalidIpAddress string
  | InvalidRpcArgument string
  | NetworkParseError string
  | InvalidNetworkSegmentType int

definition segment_type_try_from :: "int \<Rightarrow> rpc_error + segment_type" where
  "segment_type_try_from value =
     (if value = 0 then Inr Tenant
      else if value = 1 then Inr Admin
      else if value = 2 then Inr Underlay
      else if value = 3 then Inr HostInband
      else Inl (InvalidNetworkSegmentType value))"

fun segment_type_to_string :: "segment_type \<Rightarrow> string" where
  "segment_type_to_string Tenant = ''tenant''"
| "segment_type_to_string Admin = ''admin''"
| "segment_type_to_string Underlay = ''tor''"
| "segment_type_to_string HostInband = ''host_inband''"

definition segment_type_from_str :: "string \<Rightarrow> string + segment_type" where
  "segment_type_from_str s =
     (if s = ''tenant'' then Inr Tenant
      else if s = ''admin'' then Inr Admin
      else if s = ''tor'' then Inr Underlay
      else if s = ''host_inband'' then Inr HostInband
      else Inl (''Invalid segment type '' @ s @ '' reveived from Database.''))"

subsection \<open>Time limits of the states\<close>

text \<open>A duration is a number of nanoseconds. \<open>since\<close> is the difference of two points in time.\<close>

record state_sla =
  sla :: "nat option"
  time_above_sla :: bool

definition no_sla :: state_sla where
  "no_sla = \<lparr>sla = None, time_above_sla = False\<rparr>"

definition with_sla :: "nat \<Rightarrow> nat \<Rightarrow> state_sla" where
  "with_sla limit time_in_state = \<lparr>sla = Some limit, time_above_sla = limit < time_in_state\<rparr>"

definition from_secs :: "nat \<Rightarrow> nat" where
  "from_secs s = s * 10 ^ 9"

text \<open>\<open>to_std\<close> fails on a negative difference, which counts as a day.\<close>

definition time_in_state :: "('d \<Rightarrow> 'd \<Rightarrow> int) \<Rightarrow> 'd \<Rightarrow> 'd config_version \<Rightarrow> nat" where
  "time_in_state since clk version =
     (let d = since clk (timestamp version) in if d < 0 then from_secs (60 * 60 * 24) else nat d)"

fun segment_state_sla :: "('d \<Rightarrow> 'd \<Rightarrow> int) \<Rightarrow> 'd \<Rightarrow> 'd segment_state \<Rightarrow> 'd config_version \<Rightarrow> state_sla" where
  "segment_state_sla since clk SegProvisioning version = with_sla (from_secs (15 * 60)) (time_in_state since clk version)"
| "segment_state_sla since clk SegReady version = no_sla"
| "segment_state_sla since clk (SegDeleting (DrainAllocatedIps _)) version = no_sla"
| "segment_state_sla since clk (SegDeleting DBDelete) version =
     with_sla (from_secs (15 * 60)) (time_in_state since clk version)"

fun segment_metric_state_names :: "'d segment_state \<Rightarrow> full_state" where
  "segment_metric_state_names SegProvisioning = (''provisioning'', '''')"
| "segment_metric_state_names SegReady = (''ready'', '''')"
| "segment_metric_state_names (SegDeleting (DrainAllocatedIps _)) = (''deleting'', ''drainallocatedips'')"
| "segment_metric_state_names (SegDeleting DBDelete) = (''deleting'', ''dbdelete'')"

subsection \<open>Creating a segment\<close>

record ('n4, 'n6) new_network_prefix =
  nnp_prefix :: "('n4, 'n6) ip_network"
  nnp_gateway :: "ip_addr option"
  nnp_num_reserved :: int

record ('n4, 'n6) new_network_segment =
  nns_id :: u128
  nns_name :: string
  nns_subdomain_id :: "u128 option"
  nns_vpc_id :: "u128 option"
  nns_mtu :: int
  nns_prefixes :: "('n4, 'n6) new_network_prefix list"
  nns_vlan_id :: "int option"
  nns_vni :: "int option"
  nns_segment_type :: segment_type
  nns_can_stretch :: "bool option"
  nns_allocation_strategy :: allocation_strategy

record rpc_network_prefix =
  rnp_id :: "u128 option"
  rnp_prefix :: string
  rnp_gateway :: "string option"
  rnp_reserve_first :: int

record segment_creation_request =
  scr_id :: "u128 option"
  scr_name :: string
  scr_subdomain_id :: "u128 option"
  scr_vpc_id :: "u128 option"
  scr_mtu :: "int option"
  scr_prefixes :: "rpc_network_prefix list"
  scr_segment_type :: int

text \<open>\<open>IpAddr::from_str\<close> tries IPv4 first.\<close>

definition parse_ip_addr :: "string \<Rightarrow> ip_addr option" where
  "parse_ip_addr s =
     (case parse_ipv4 s of Some a \<Rightarrow> Some (V4Addr a) | None \<Rightarrow> map_option V6Addr (parse_ipv6 s))"

definition new_network_prefix_try_from ::
    "(string \<Rightarrow> string + ('n4, 'n6) ip_network) \<Rightarrow> rpc_network_prefix \<Rightarrow> rpc_error + ('n4, 'n6) new_network_prefix" where
  "new_network_prefix_try_from parse_net value =
     (if rnp_id value \<noteq> None then Inl (IdentifierSpecifiedForNewObject ''Network Prefix'')
      else bind_res (map_err NetworkParseError (parse_net (rnp_prefix value))) (\<lambda>prefix.
           bind_res (case rnp_gateway value of
                       Some g \<Rightarrow> bind_res (ok_or (parse_ip_addr g) (InvalidIpAddress g)) (\<lambda>a. Inr (Some a))
                     | None \<Rightarrow> Inr None) (\<lambda>gateway.
             Inr \<lparr>nnp_prefix = prefix, nnp_gateway = gateway, nnp_num_reserved = rnp_reserve_first value\<rparr>)))"

definition tiny_prefix :: "('n4, 'n6) ipnetwork_pkg \<Rightarrow> ('n4, 'n6) ip_network \<Rightarrow> bool" where
  "tiny_prefix pkg n = (case n of Inl _ \<Rightarrow> 31 \<le> plen pkg n | Inr _ \<Rightarrow> 127 \<le> plen pkg n)"

definition DEFAULT_MTU_TENANT :: int where
  "DEFAULT_MTU_TENANT = 9000"

definition DEFAULT_MTU_OTHER :: int where
  "DEFAULT_MTU_OTHER = 1500"

text \<open>\<open>fresh_id\<close> is the identifier drawn when the request has none.\<close>

definition new_network_segment_try_from ::
    "('n4, 'n6) ipnetwork_pkg \<Rightarrow> (string \<Rightarrow> string + ('n4, 'n6) ip_network) \<Rightarrow> u128 \<Rightarrow> segment_creation_request
       \<Rightarrow> rpc_error + ('n4, 'n6) new_network_segment" where
  "new_network_segment_try_from pkg parse_net fresh_id value =
     (if scr_prefixes value = [] then Inl (InvalidRpcArgument ''Prefixes are empty.'')
      else
        bind_res (collect_res (new_network_prefix_try_from parse_net) (scr_prefixes value)) (\<lambda>prefixes.
        bind_res (segment_type_try_from (scr_segment_type value)) (\<lambda>ty.
          if ty = Tenant \<and> (\<exists>p \<in> set prefixes. tiny_prefix pkg (nnp_prefix p))
          then Inl (InvalidRpcArgument
            ''IPv4 prefix /31 and /32 (or IPv6 /127 and /128) are not allowed for tenant segments.'')
          else Inr \<lparr>nns_id = (case scr_id value of Some i \<Rightarrow> i | None \<Rightarrow> fresh_id), nns_name = scr_name value,
                    nns_subdomain_id = scr_subdomain_id value, nns_vpc_id = scr_vpc_id value,
                    nns_mtu = (case scr_mtu value of Some m \<Rightarrow> m
                               | None \<Rightarrow> if ty = Tenant then DEFAULT_MTU_TENANT else DEFAULT_MTU_OTHER),
                    nns_prefixes = prefixes, nns_vlan_id = None, nns_vni = None, nns_segment_type = ty,
                    nns_can_stretch = (if ty = Tenant then Some True else None),
                    nns_allocation_strategy = Dynamic\<rparr>)))"

definition build_from ::
    "(string \<Rightarrow> string + ('n4, 'n6) ip_network) \<Rightarrow> u128 \<Rightarrow> string \<Rightarrow> u128 \<Rightarrow> network_definition
       \<Rightarrow> rpc_error + ('n4, 'n6) new_network_segment" where
  "build_from parse_net fresh_id name domain_id value =
     bind_res (map_err NetworkParseError (parse_net (nd_prefix value))) (\<lambda>prefix.
     bind_res (ok_or (parse_ip_addr (nd_gateway value)) (InvalidIpAddress (nd_gateway value))) (\<lambda>gateway.
       Inr \<lparr>nns_id = fresh_id, nns_name = name, nns_subdomain_id = Some domain_id, nns_vpc_id = None,
            nns_mtu = nd_mtu value,
            nns_prefixes = [\<lparr>nnp_prefix = prefix, nnp_gateway = Some gateway, nnp_num_reserved = nd_reserve_first value\<rparr>],
            nns_vlan_id = None, nns_vni = None,
            nns_segment_type = (case nd_segment_type value of DefAdmin \<Rightarrow> Admin | DefUnderlay \<Rightarrow> Underlay),
            nns_can_stretch = None, nns_allocation_strategy = nd_allocation_strategy value\<rparr>))"

section \<open>The tables\<close>

record segment_config =
  sc_name :: string
  sc_subdomain_id :: "u128 option"
  sc_mtu :: int
  sc_segment_type :: segment_type
  sc_allocation_strategy :: allocation_strategy
  sc_vpc_id :: "u128 option"

record 'd segment_status =
  ss_controller_state :: "('d segment_state, 'd) versioned"
  ss_outcome :: "persistent_outcome option"
  ss_vlan_id :: "int option"
  ss_vni :: "int option"
  ss_can_stretch :: "bool option"

record 'd segment_row =
  sr_version :: "'d config_version"
  sr_config :: segment_config
  sr_status :: "'d segment_status"
  sr_created :: 'd
  sr_updated :: 'd
  sr_deleted :: "'d option"

record ('n4, 'n6, 'd) network_segment =
  seg_id :: u128
  seg_row :: "'d segment_row"
  seg_prefixes :: "('n4, 'n6) network_prefix list"
  seg_history :: "(u128, 'd segment_state, 'd) history_table"

datatype vpc_virtualization_type = EthernetVirtualizer | EthernetVirtualizerWithNvue | Fnn

text \<open>The columns of \<open>vpcs\<close> that segments depend on.\<close>

record vpc_row =
  vp_organization_id :: string
  vp_virtualization_type :: vpc_virtualization_type
  vp_deleted :: bool

record ('n4, 'n6, 'd) segment_db =
  db_segments :: "(u128 \<times> 'd segment_row) list"
  db_prefixes :: "('n4, 'n6) network_prefix list"
  db_history :: "(u128, 'd segment_state, 'd) history_table"
  db_network_defs :: "(string \<times> u128 \<times> network_definition) list"
  db_interfaces :: "(u128 \<times> ip_addr list) list"
  db_addresses :: "(u128 \<times> ('n4, 'n6) ip_network) list"
  db_pools :: "'d pool_table"
  db_vpcs :: "(u128 \<times> vpc_row) list"
  db_domains :: "u128 list"

datatype db_error =
    DbQuery string
  | RowNotFound
  | ConstraintViolation string
  | DbInternal string
  | DbNotFoundError string string
  | NetworkSegmentDelete string
  | ResourceExhausted string
  | DbAlloc alloc_error
  | DbPanicked

definition is_marked_as_deleted :: "'d segment_row \<Rightarrow> bool" where
  "is_marked_as_deleted r \<longleftrightarrow> sr_deleted r \<noteq> None"

subsection \<open>Reading\<close>

text \<open>\<open>NETWORK_SEGMENT_SNAPSHOT_QUERY\<close>: the row with its prefixes; the count of free addresses is not a column
  and starts at 0. The second argument selects the variant with the history.\<close>

definition prefixes_of :: "('n4, 'n6, 'd) segment_db \<Rightarrow> u128 \<Rightarrow> ('n4, 'n6) network_prefix list" where
  "prefixes_of db sid = map (\<lambda>p. p\<lparr>np_num_free_ips := 0\<rparr>) (filter (\<lambda>p. np_segment_id p = sid) (db_prefixes db))"

definition snapshot :: "('n4, 'n6, 'd) segment_db \<Rightarrow> bool \<Rightarrow> u128 \<times> 'd segment_row \<Rightarrow> ('n4, 'n6, 'd) network_segment" where
  "snapshot db include_history ir =
     \<lparr>seg_id = fst ir, seg_row = snd ir, seg_prefixes = prefixes_of db (fst ir),
      seg_history = (if include_history then for_object (fst ir) (db_history db) else [])\<rparr>"

definition select_segments ::
    "('n4, 'n6, 'd) segment_db \<Rightarrow> (u128 \<times> 'd segment_row \<Rightarrow> bool) \<Rightarrow> ('n4, 'n6, 'd) network_segment list" where
  "select_segments db P = map (snapshot db False) (filter P (db_segments db))"

datatype 'c object_column_filter = AllRows | ColumnList "'c list" | ColumnOne 'c

fun column_matches :: "'c object_column_filter \<Rightarrow> 'c option \<Rightarrow> bool" where
  "column_matches AllRows v = True"
| "column_matches (ColumnList vs) v = (case v of None \<Rightarrow> False | Some x \<Rightarrow> x \<in> set vs)"
| "column_matches (ColumnOne x) v = (v = Some x)"

text \<open>The networks in use on a segment. For the overlay segments of tenants the busy addresses are part of the
  resolver but not of its answer.\<close>

definition used_prefixes_overlay ::
    "('n4, 'n6, 'd) segment_db \<Rightarrow> u128 \<Rightarrow> ip_addr list \<Rightarrow> ('n4, 'n6) ip_network list" where
  "used_prefixes_overlay db sid busy_ips =
     map snd (filter (\<lambda>a. fst a = sid \<and> sid \<in> fst ` set (db_segments db)) (db_addresses db))"

definition used_ips_admin :: "('n4, 'n6, 'd) segment_db \<Rightarrow> u128 \<Rightarrow> ip_addr list \<Rightarrow> ip_addr list" where
  "used_ips_admin db sid busy_ips =
     concat (map snd (filter (\<lambda>a. fst a = sid \<and> sid \<in> fst ` set (db_segments db)) (db_interfaces db))) @ busy_ips"

definition used_prefixes_admin ::
    "('n4, 'n6) ipnetwork_pkg \<Rightarrow> ('n4, 'n6, 'd) segment_db \<Rightarrow> u128 \<Rightarrow> ip_addr list
       \<Rightarrow> db_error + ('n4, 'n6) ip_network list" where
  "used_prefixes_admin pkg db sid busy_ips =
     map_err (\<lambda>_. DbQuery ''machine_interface.used_prefixes'') (collect_res (host_net pkg) (used_ips_admin db sid busy_ips))"

definition used_prefixes ::
    "('n4, 'n6) ipnetwork_pkg \<Rightarrow> ('n4, 'n6, 'd) segment_db \<Rightarrow> segment_type \<Rightarrow> u128 \<Rightarrow> ip_addr list
       \<Rightarrow> db_error + ('n4, 'n6) ip_network list" where
  "used_prefixes pkg db ty sid busy_ips =
     (if is_tenant ty then Inr (used_prefixes_overlay db sid busy_ips) else used_prefixes_admin pkg db sid busy_ips)"

text \<open>The SVI addresses of a segment's prefixes.\<close>

definition svi_ips :: "('n4, 'n6) network_prefix list \<Rightarrow> ip_addr list" where
  "svi_ips ps = List.map_filter np_svi_ip ps"

definition update_num_free_ips ::
    "('n4, 'n6) ipnetwork_pkg \<Rightarrow> ('n4, 'n6, 'd) segment_db \<Rightarrow> ('n4, 'n6, 'd) network_segment
       \<Rightarrow> db_error + ('n4, 'n6, 'd) network_segment" where
  "update_num_free_ips pkg db record =
     (case seg_prefixes record of
        [] \<Rightarrow> Inr record
      | p # ps \<Rightarrow>
          bind_res (used_prefixes pkg db (sc_segment_type (sr_config (seg_row record))) (seg_id record) (svi_ips (p # ps))) (\<lambda>used.
          case num_free pkg (new_allocator (p # ps) used NextAvailableIp) of
            None \<Rightarrow> Inl DbPanicked
          | Some (Inl e) \<Rightarrow> Inl (DbAlloc e)
          | Some (Inr nfree) \<Rightarrow> Inr (record\<lparr>seg_prefixes := p\<lparr>np_num_free_ips := nfree\<rparr> # ps\<rparr>)))"

record search_config =
  include_history :: bool
  include_num_free_ips :: bool

definition default_search :: search_config where
  "default_search = \<lparr>include_history = False, include_num_free_ips = False\<rparr>"

text \<open>\<open>column\<close> is the column the filter is about.\<close>

definition find_by ::
    "('n4, 'n6) ipnetwork_pkg \<Rightarrow> ('n4, 'n6, 'd) segment_db \<Rightarrow> (u128 \<times> 'd segment_row \<Rightarrow> 'c option)
       \<Rightarrow> 'c object_column_filter \<Rightarrow> search_config \<Rightarrow> db_error + ('n4, 'n6, 'd) network_segment list" where
  "find_by pkg db column flt cfg =
     (let all_records = map (snapshot db (include_history cfg)) (filter (\<lambda>ir. column_matches flt (column ir)) (db_segments db))
      in if include_num_free_ips cfg then collect_res (update_num_free_ips pkg db) all_records else Inr all_records)"

definition id_column :: "u128 \<times> 'd segment_row \<Rightarrow> u128 option" where
  "id_column ir = Some (fst ir)"

definition vpc_column :: "u128 \<times> 'd segment_row \<Rightarrow> u128 option" where
  "vpc_column ir = sc_vpc_id (sr_config (snd ir))"

definition for_vpc :: "('n4, 'n6, 'd) segment_db \<Rightarrow> u128 \<Rightarrow> ('n4, 'n6, 'd) network_segment list" where
  "for_vpc db vpc = select_segments db (\<lambda>ir. sc_vpc_id (sr_config (snd ir)) = Some vpc)"

definition has_relay_prefix ::
    "('n4, 'n6) ipnetwork_pkg \<Rightarrow> ('n4, 'n6, 'd) segment_db \<Rightarrow> ip_addr list \<Rightarrow> u128 \<Rightarrow> bool" where
  "has_relay_prefix pkg db relays sid \<longleftrightarrow>
     (\<exists>p \<in> set (db_prefixes db). np_segment_id p = sid \<and> (\<exists>a \<in> set relays. contains_addr pkg (np_prefix p) a))"

definition for_relay_all ::
    "('n4, 'n6) ipnetwork_pkg \<Rightarrow> ('n4, 'n6, 'd) segment_db \<Rightarrow> ip_addr list \<Rightarrow> ('n4, 'n6, 'd) network_segment list" where
  "for_relay_all pkg db relays =
     sort_key seg_id (select_segments db (\<lambda>ir. has_relay_prefix pkg db relays (fst ir)))"

definition for_relay ::
    "('n4, 'n6) ipnetwork_pkg \<Rightarrow> ('n4, 'n6, 'd) segment_db \<Rightarrow> ip_addr \<Rightarrow> db_error + ('n4, 'n6, 'd) network_segment option" where
  "for_relay pkg db relay =
     (case for_relay_all pkg db [relay] of
        [] \<Rightarrow> Inr None
      | [s] \<Rightarrow> Inr (Some s)
      | _ \<Rightarrow> Inl (DbInternal ''Multiple network segments defined for relay address''))"

definition for_segment_type_all ::
    "('n4, 'n6) ipnetwork_pkg \<Rightarrow> ('n4, 'n6, 'd) segment_db \<Rightarrow> ip_addr list \<Rightarrow> segment_type
       \<Rightarrow> ('n4, 'n6, 'd) network_segment list" where
  "for_segment_type_all pkg db relays ty =
     sort_key seg_id (select_segments db (\<lambda>ir. has_relay_prefix pkg db relays (fst ir) \<and> ty = sc_segment_type (sr_config (snd ir))))"

definition for_segment_type ::
    "('n4, 'n6) ipnetwork_pkg \<Rightarrow> ('n4, 'n6, 'd) segment_db \<Rightarrow> ip_addr \<Rightarrow> segment_type
       \<Rightarrow> ('n4, 'n6, 'd) network_segment option" where
  "for_segment_type pkg db relay ty =
     (case for_segment_type_all pkg db [relay] ty of [] \<Rightarrow> None | s # ss \<Rightarrow> Some (last (s # ss)))"

definition list_segment_ids :: "('n4, 'n6, 'd) segment_db \<Rightarrow> segment_type option \<Rightarrow> u128 list" where
  "list_segment_ids db ty =
     map fst (case ty of Some t \<Rightarrow> filter (\<lambda>ir. sc_segment_type (sr_config (snd ir)) = t) (db_segments db)
              | None \<Rightarrow> db_segments db)"

definition find_ids :: "('n4, 'n6, 'd) segment_db \<Rightarrow> string option \<Rightarrow> string option \<Rightarrow> u128 list" where
  "find_ids db name tenant_org_id =
     map fst (filter (\<lambda>ir.
       (case tenant_org_id of None \<Rightarrow> True
        | Some org \<Rightarrow> (\<exists>v \<in> set (db_vpcs db). sc_vpc_id (sr_config (snd ir)) = Some (fst v) \<and> vp_organization_id (snd v) = org))
       \<and> (case name of None \<Rightarrow> True | Some n \<Rightarrow> sc_name (sr_config (snd ir)) = n)) (db_segments db))"

text \<open>\<open>fetch_one\<close> takes the first row of the answer.\<close>

definition find_by_name :: "('n4, 'n6, 'd) segment_db \<Rightarrow> string \<Rightarrow> db_error + ('n4, 'n6, 'd) network_segment" where
  "find_by_name db name =
     (case select_segments db (\<lambda>ir. sc_name (sr_config (snd ir)) = name) of [] \<Rightarrow> Inl RowNotFound | s # _ \<Rightarrow> Inr s)"

definition STATIC_ASSIGNMENTS_SEGMENT_NAME :: string where
  "STATIC_ASSIGNMENTS_SEGMENT_NAME = ''static-assignments''"

definition static_assignments :: "('n4, 'n6, 'd) segment_db \<Rightarrow> db_error + ('n4, 'n6, 'd) network_segment" where
  "static_assignments db = find_by_name db STATIC_ASSIGNMENTS_SEGMENT_NAME"

definition admin_segments :: "('n4, 'n6, 'd) segment_db \<Rightarrow> db_error + ('n4, 'n6, 'd) network_segment list" where
  "admin_segments db =
     (let segments = sort_key seg_id (select_segments db (\<lambda>ir. sc_segment_type (sr_config (snd ir)) = Admin))
      in if segments = [] then Inl RowNotFound else Inr segments)"

definition are_network_segments_ready ::
    "('n4, 'n6) ipnetwork_pkg \<Rightarrow> ('n4, 'n6, 'd) segment_db \<Rightarrow> u128 list \<Rightarrow> db_error + bool" where
  "are_network_segments_ready pkg db ids =
     bind_res (find_by pkg db id_column (ColumnList ids) default_search) (\<lambda>segments.
       Inr (\<not> (\<exists>x \<in> set segments. ver_value (ss_controller_state (sr_status (seg_row x))) \<noteq> SegReady)))"

definition count_interfaces :: "('n4, 'n6, 'd) segment_db \<Rightarrow> u128 \<Rightarrow> nat" where
  "count_interfaces db sid = length (filter (\<lambda>a. fst a = sid) (db_interfaces db))"

definition count_addresses :: "('n4, 'n6, 'd) segment_db \<Rightarrow> u128 \<Rightarrow> nat" where
  "count_addresses db sid = length (filter (\<lambda>a. fst a = sid) (db_addresses db))"

subsection \<open>Writing\<close>

text \<open>\<open>UPDATE network_segments SET ... WHERE id = sid\<close>; the identifier is the primary key.\<close>

definition update_segment ::
    "u128 \<Rightarrow> ('d segment_row \<Rightarrow> 'd segment_row) \<Rightarrow> ('n4, 'n6, 'd) segment_db \<Rightarrow> ('n4, 'n6, 'd) segment_db" where
  "update_segment sid f db = db\<lparr>db_segments := AList.map_entry sid f (db_segments db)\<rparr>"

text \<open>The constraints a new segment row has to meet.\<close>

definition segment_row_ok :: "('n4, 'n6, 'd) segment_db \<Rightarrow> ('n4, 'n6) new_network_segment \<Rightarrow> bool" where
  "segment_row_ok db ns \<longleftrightarrow>
     nns_id ns \<notin> fst ` set (db_segments db)
     \<and> 576 \<le> nns_mtu ns \<and> nns_mtu ns \<le> 9000
     \<and> (case nns_vlan_id ns of None \<Rightarrow> True
        | Some v \<Rightarrow> 0 \<le> v \<and> v < 4096 \<and> (\<forall>(i, r) \<in> set (db_segments db). ss_vlan_id (sr_status r) \<noteq> Some v))
     \<and> (case nns_subdomain_id ns of None \<Rightarrow> True | Some d \<Rightarrow> d \<in> set (db_domains db))
     \<and> (case nns_vpc_id ns of None \<Rightarrow> True | Some v \<Rightarrow> v \<in> fst ` set (db_vpcs db))"

definition insert_segment ::
    "'d \<Rightarrow> 'd config_version \<Rightarrow> 'd segment_state \<Rightarrow> ('n4, 'n6) new_network_segment \<Rightarrow> ('n4, 'n6, 'd) segment_db
       \<Rightarrow> db_error + ('n4, 'n6, 'd) segment_db" where
  "insert_segment clk version first_state ns db =
     (if segment_row_ok db ns
      then Inr (db\<lparr>db_segments := db_segments db @ [(nns_id ns,
             \<lparr>sr_version = version,
              sr_config = \<lparr>sc_name = nns_name ns, sc_subdomain_id = nns_subdomain_id ns, sc_mtu = nns_mtu ns,
                           sc_segment_type = nns_segment_type ns, sc_allocation_strategy = nns_allocation_strategy ns,
                           sc_vpc_id = nns_vpc_id ns\<rparr>,
              sr_status = \<lparr>ss_controller_state = \<lparr>ver_value = first_state, ver_version = version\<rparr>, ss_outcome = None,
                           ss_vlan_id = nns_vlan_id ns, ss_vni = nns_vni ns, ss_can_stretch = nns_can_stretch ns\<rparr>,
              sr_created = clk, sr_updated = clk, sr_deleted = None\<rparr>)]\<rparr>)
      else Inl (ConstraintViolation ''network_segments''))"

text \<open>Two networks overlap (the operator \<open>&&\<close>), and the constraints a new prefix row has to meet: the
  exclusion of overlapping prefixes, no gateway for IPv6, the gateway strictly inside the network, and at
  most one prefix per family and segment. The cast to \<open>cidr\<close> clears the host bits.\<close>

definition nets_overlap :: "('n4, 'n6) ipnetwork_pkg \<Rightarrow> ('n4, 'n6) ip_network \<Rightarrow> ('n4, 'n6) ip_network \<Rightarrow> bool" where
  "nets_overlap pkg a b \<longleftrightarrow> contains_addr pkg a (network_of pkg b) \<or> contains_addr pkg b (network_of pkg a)"

definition to_cidr :: "('n4, 'n6) ipnetwork_pkg \<Rightarrow> ('n4, 'n6) ip_network \<Rightarrow> ('n4, 'n6) ip_network" where
  "to_cidr pkg n = (case network_new pkg (network_of pkg n) (plen pkg n) of Some c \<Rightarrow> c | None \<Rightarrow> n)"

definition prefix_row_ok ::
    "('n4, 'n6) ipnetwork_pkg \<Rightarrow> ('n4, 'n6, 'd) segment_db \<Rightarrow> ('n4, 'n6) network_prefix \<Rightarrow> db_error + unit" where
  "prefix_row_ok pkg db p =
     (if np_id p \<in> np_id ` set (db_prefixes db) then Inl (ConstraintViolation ''network_prefixes_pkey'')
      else if np_segment_id p \<notin> fst ` set (db_segments db) then Inl (ConstraintViolation ''network_prefixes_segment_id_fkey'')
      else if \<not> isl (np_prefix p) \<and> np_gateway p \<noteq> None then Inl (ConstraintViolation ''no_gateway_on_ipv6'')
      else if (case np_gateway p of None \<Rightarrow> False
               | Some g \<Rightarrow> \<not> (contains_addr pkg (np_prefix p) g \<and> plen pkg (np_prefix p) < (if isl (np_prefix p) then 32 else 128)))
      then Inl (ConstraintViolation ''gateway_within_network'')
      else if (\<exists>q \<in> set (db_prefixes db). nets_overlap pkg (np_prefix q) (np_prefix p))
      then Inl (ConstraintViolation ''network_prefixes_prefix_excl'')
      else if (\<exists>q \<in> set (db_prefixes db). isl (np_prefix q) = isl (np_prefix p) \<and> np_segment_id q = np_segment_id p)
      then Inl (ConstraintViolation ''network_prefix_family'')
      else Inr ())"

text \<open>\<open>draw\<close> gives the identifier the database draws for the \<open>i\<close>-th inserted row.\<close>

definition insert_prefix ::
    "('n4, 'n6) ipnetwork_pkg \<Rightarrow> u128 \<Rightarrow> u128 \<Rightarrow> ('n4, 'n6) new_network_prefix \<Rightarrow> ('n4, 'n6, 'd) segment_db
       \<Rightarrow> db_error + ('n4, 'n6, 'd) segment_db" where
  "insert_prefix pkg pid sid p db =
     (let row = \<lparr>np_id = pid, np_segment_id = sid, np_prefix = to_cidr pkg (nnp_prefix p), np_gateway = nnp_gateway p,
                 np_num_reserved = nnp_num_reserved p, np_vpc_prefix_id = None, np_vpc_prefix = None,
                 np_svi_ip = None, np_num_free_ips = 0\<rparr>
      in bind_res (prefix_row_ok pkg db row) (\<lambda>_. Inr (db\<lparr>db_prefixes := db_prefixes db @ [row]\<rparr>)))"

fun create_for ::
    "('n4, 'n6) ipnetwork_pkg \<Rightarrow> (nat \<Rightarrow> u128) \<Rightarrow> u128 \<Rightarrow> ('n4, 'n6) new_network_prefix list \<Rightarrow> ('n4, 'n6, 'd) segment_db
       \<Rightarrow> db_error + ('n4, 'n6, 'd) segment_db" where
  "create_for pkg draw sid [] db = Inr db"
| "create_for pkg draw sid (p # ps) db =
     bind_res (insert_prefix pkg (draw 0) sid p db) (\<lambda>db'. create_for pkg (\<lambda>i. draw (Suc i)) sid ps db')"

definition delete_for_segment :: "u128 \<Rightarrow> ('n4, 'n6, 'd) segment_db \<Rightarrow> ('n4, 'n6, 'd) segment_db" where
  "delete_for_segment sid db = db\<lparr>db_prefixes := filter (\<lambda>p. np_segment_id p \<noteq> sid) (db_prefixes db)\<rparr>"

definition record_state :: "'d \<Rightarrow> u128 \<Rightarrow> 'd segment_state \<Rightarrow> 'd config_version \<Rightarrow> ('n4, 'n6, 'd) segment_db \<Rightarrow> ('n4, 'n6, 'd) segment_db" where
  "record_state clk sid state version db = db\<lparr>db_history := persist_history (db_history db) sid state version clk\<rparr>"

definition persist_segment ::
    "('n4, 'n6) ipnetwork_pkg \<Rightarrow> (nat \<Rightarrow> u128) \<Rightarrow> 'd \<Rightarrow> 'd config_version \<Rightarrow> ('n4, 'n6) new_network_segment \<Rightarrow> 'd segment_state
       \<Rightarrow> ('n4, 'n6, 'd) segment_db \<Rightarrow> db_error + (('n4, 'n6, 'd) segment_db \<times> ('n4, 'n6, 'd) network_segment)" where
  "persist_segment pkg draw clk version value first_state db =
     bind_res (insert_segment clk version first_state value db) (\<lambda>db1.
     bind_res (create_for pkg draw (nns_id value) (nns_prefixes value) db1) (\<lambda>db2.
       let db3 = record_state clk (nns_id value) first_state version db2
       in bind_res (find_by pkg db3 id_column (ColumnOne (nns_id value)) default_search) (\<lambda>segments.
            case segments of [] \<Rightarrow> Inl RowNotFound | s # ss \<Rightarrow> Inr (db3, last (s # ss)))))"

definition try_update_controller_state ::
    "u128 \<Rightarrow> 'd config_version \<Rightarrow> 'd config_version \<Rightarrow> 'd segment_state \<Rightarrow> ('n4, 'n6, 'd) segment_db
       \<Rightarrow> bool \<times> ('n4, 'n6, 'd) segment_db" where
  "try_update_controller_state sid expected_version next_version new_state db =
     (case map_of (db_segments db) sid of
        Some r \<Rightarrow>
          if ver_version (ss_controller_state (sr_status r)) = expected_version
          then (True, update_segment sid (\<lambda>r. r\<lparr>sr_status := (sr_status r)\<lparr>ss_controller_state :=
                        \<lparr>ver_value = new_state, ver_version = next_version\<rparr>\<rparr>\<rparr>) db)
          else (False, db)
      | None \<Rightarrow> (False, db))"

definition update_controller_state_outcome ::
    "u128 \<Rightarrow> persistent_outcome \<Rightarrow> ('n4, 'n6, 'd) segment_db \<Rightarrow> ('n4, 'n6, 'd) segment_db" where
  "update_controller_state_outcome sid outcome =
     update_segment sid (\<lambda>r. r\<lparr>sr_status := (sr_status r)\<lparr>ss_outcome := Some outcome\<rparr>\<rparr>)"

definition set_vpc_id_and_can_stretch :: "u128 \<Rightarrow> u128 \<Rightarrow> ('n4, 'n6, 'd) segment_db \<Rightarrow> db_error + ('n4, 'n6, 'd) segment_db" where
  "set_vpc_id_and_can_stretch sid vpc db =
     (if sid \<in> fst ` set (db_segments db) \<and> vpc \<notin> fst ` set (db_vpcs db) then Inl (ConstraintViolation ''network_segments_vpc_id_fkey'')
      else Inr (update_segment sid (\<lambda>r. r\<lparr>sr_config := (sr_config r)\<lparr>sc_vpc_id := Some vpc\<rparr>,
                                          sr_status := (sr_status r)\<lparr>ss_can_stretch := Some True\<rparr>\<rparr>) db))"

definition set_deleted :: "'d \<Rightarrow> 'd segment_row \<Rightarrow> 'd segment_row" where
  "set_deleted clk r = r\<lparr>sr_updated := clk, sr_deleted := Some clk\<rparr>"

definition mark_as_deleted :: "'d \<Rightarrow> u128 \<Rightarrow> ('n4, 'n6, 'd) segment_db \<Rightarrow> db_error + ('n4, 'n6, 'd) segment_db" where
  "mark_as_deleted clk sid db =
     (if 0 < count_interfaces db sid
      then Inl (NetworkSegmentDelete ''Network Segment can't be deleted with associated MachineInterface'')
      else if 0 < count_addresses db sid
      then Inl (NetworkSegmentDelete
             ''Network Segment can't be deleted while addresses on the segment are allocated to instances'')
      else if sid \<in> fst ` set (db_segments db) then Inr (update_segment sid (set_deleted clk) db)
      else Inl RowNotFound)"

definition mark_as_deleted_no_validation ::
    "'d \<Rightarrow> u128 list \<Rightarrow> ('n4, 'n6, 'd) segment_db \<Rightarrow> db_error + (u128 \<times> ('n4, 'n6, 'd) segment_db)" where
  "mark_as_deleted_no_validation clk ids db =
     (case filter (\<lambda>i. i \<in> set ids) (map fst (db_segments db)) of
        [] \<Rightarrow> Inl RowNotFound
      | i # _ \<Rightarrow> Inr (i, db\<lparr>db_segments := map (\<lambda>(i, r). (i, if i \<in> set ids then set_deleted clk r else r)) (db_segments db)\<rparr>))"

text \<open>The foreign keys of \<open>machine_interfaces\<close> and \<open>network_prefixes\<close> restrict the deletion, that of
  \<open>network_def\<close> cascades.\<close>

definition delete_segment :: "u128 \<Rightarrow> ('n4, 'n6, 'd) segment_db \<Rightarrow> db_error + ('n4, 'n6, 'd) segment_db" where
  "delete_segment sid db =
     (if sid \<notin> fst ` set (db_segments db) then Inl RowNotFound
      else if 0 < count_interfaces db sid \<or> sid \<in> np_segment_id ` set (db_prefixes db)
      then Inl (ConstraintViolation ''network_segments'')
      else Inr (db\<lparr>db_segments := filter (\<lambda>ir. fst ir \<noteq> sid) (db_segments db),
                   db_network_defs := filter (\<lambda>d. fst (snd d) \<noteq> sid) (db_network_defs db)\<rparr>))"

definition final_delete :: "u128 \<Rightarrow> ('n4, 'n6, 'd) segment_db \<Rightarrow> db_error + ('n4, 'n6, 'd) segment_db" where
  "final_delete sid db = delete_segment sid (delete_for_segment sid db)"

subsection \<open>Definitions of networks from the configuration file\<close>

definition stored_def :: "('n4, 'n6, 'd) segment_db \<Rightarrow> string \<Rightarrow> network_definition option" where
  "stored_def db name = map_option snd (map_of (db_network_defs db) name)"

definition segment_exists :: "('n4, 'n6, 'd) segment_db \<Rightarrow> string \<Rightarrow> bool" where
  "segment_exists db name \<longleftrightarrow> (\<exists>ir \<in> set (db_segments db). sc_name (sr_config (snd ir)) = name)"

definition insert_network_def ::
    "string \<Rightarrow> u128 \<Rightarrow> network_definition \<Rightarrow> ('n4, 'n6, 'd) segment_db \<Rightarrow> db_error + ('n4, 'n6, 'd) segment_db" where
  "insert_network_def name sid df db =
     (if name \<in> fst ` set (db_network_defs db) \<or> sid \<in> (fst \<circ> snd) ` set (db_network_defs db)
         \<or> sid \<notin> fst ` set (db_segments db)
      then Inl (ConstraintViolation ''network_def'')
      else Inr (db\<lparr>db_network_defs := db_network_defs db @ [(name, sid, df)]\<rparr>))"

text \<open>One declared network: \<open>stored\<close> is what was stored before the loop. A definition whose segment is gone is
  a panic.\<close>

definition reconcile_network_def ::
    "(string \<Rightarrow> network_definition option) \<Rightarrow> string \<times> network_definition \<Rightarrow> ('n4, 'n6, 'd) segment_db
       \<Rightarrow> db_error + ('n4, 'n6, 'd) segment_db" where
  "reconcile_network_def stored nd db =
     (case (stored (fst nd), segment_exists db (fst nd)) of
        (Some _, True) \<Rightarrow> Inr db
      | (None, True) \<Rightarrow>
          (case map fst (filter (\<lambda>ir. sc_name (sr_config (snd ir)) = fst nd) (db_segments db)) of
             [sid] \<Rightarrow> insert_network_def (fst nd) sid (snd nd) db
           | _ \<Rightarrow> Inr db)
      | (None, False) \<Rightarrow> Inr db
      | (Some _, False) \<Rightarrow> Inl DbPanicked)"

definition reconcile_network_defs ::
    "(string \<times> network_definition) list \<Rightarrow> ('n4, 'n6, 'd) segment_db \<Rightarrow> db_error + ('n4, 'n6, 'd) segment_db" where
  "reconcile_network_defs declared db = fold_res (reconcile_network_def (stored_def db)) declared db"

subsection \<open>SVI addresses\<close>

text \<open>\<open>allocate_svi_ip\<close> of \<open>machine_interface.rs\<close> and \<open>instance_address.rs\<close>, which differ in the resolver, on a
  segment with the one prefix \<open>p\<close>.\<close>

definition allocate_svi_from ::
    "('n4, 'n6) ipnetwork_pkg \<Rightarrow> (u128 \<Rightarrow> string) \<Rightarrow> ('n4, 'n6, 'd) segment_db \<Rightarrow> segment_type \<Rightarrow> u128 \<Rightarrow> ('n4, 'n6) network_prefix
       \<Rightarrow> db_error + ip_addr" where
  "allocate_svi_from pkg show_id db ty sid p =
     bind_res (used_prefixes pkg db ty sid []) (\<lambda>used.
       case next_network pkg (new_allocator [p] used NextAvailableIp) of
         None \<Rightarrow> Inl DbPanicked
       | Some (_, Some (_, Inr a)) \<Rightarrow> Inr (ip_of pkg a)
       | Some (_, Some (_, Inl e)) \<Rightarrow> Inl (DbAlloc e)
       | Some (_, None) \<Rightarrow> Inl (ResourceExhausted
           (if is_tenant ty then ''Unable to allocate SVI IP for : No free IPs in segment '' @ show_id sid @ ''.''
            else ''SVI IP not found for '' @ show_id sid @ ''.'')))"

definition set_svi_ip ::
    "u128 \<Rightarrow> ip_addr \<Rightarrow> ('n4, 'n6, 'd) segment_db \<Rightarrow> db_error + ('n4, 'n6, 'd) segment_db" where
  "set_svi_ip pid a db =
     (if pid \<in> np_id ` set (db_prefixes db)
      then Inr (db\<lparr>db_prefixes := map (\<lambda>p. if np_id p = pid then p\<lparr>np_svi_ip := Some a\<rparr> else p) (db_prefixes db)\<rparr>)
      else Inl RowNotFound)"

definition choose_svi_ip ::
    "('n4, 'n6) ipnetwork_pkg \<Rightarrow> (u128 \<Rightarrow> string) \<Rightarrow> segment_type \<Rightarrow> u128 \<Rightarrow> ('n4, 'n6) network_prefix \<Rightarrow> ('n4, 'n6, 'd) segment_db
       \<Rightarrow> db_error + ip_addr" where
  "choose_svi_ip pkg show_id ty sid p db =
     (if 3 \<le> np_num_reserved p
      then (let addrs = iter_of pkg (np_prefix p)
            in if 2 < length addrs then Inr (addrs ! 2) else Inl (DbInternal (''Prefix '' @ show_id (np_id p) @ '' does not have 3 valid IPs.'')))
      else allocate_svi_from pkg show_id db ty sid p)"

fun allocate_svi_loop ::
    "('n4, 'n6) ipnetwork_pkg \<Rightarrow> (u128 \<Rightarrow> string) \<Rightarrow> segment_type \<Rightarrow> u128 \<Rightarrow> ('n4, 'n6) network_prefix list \<Rightarrow> ip_addr option
       \<Rightarrow> ('n4, 'n6, 'd) segment_db \<Rightarrow> db_error + (ip_addr option \<times> ('n4, 'n6, 'd) segment_db)" where
  "allocate_svi_loop pkg show_id ty sid [] first_svi db = Inr (first_svi, db)"
| "allocate_svi_loop pkg show_id ty sid (p # ps) first_svi db =
     (case np_svi_ip p of
        Some a \<Rightarrow> allocate_svi_loop pkg show_id ty sid ps (if first_svi = None then Some a else first_svi) db
      | None \<Rightarrow>
          bind_res (choose_svi_ip pkg show_id ty sid p db) (\<lambda>a.
          bind_res (set_svi_ip (np_id p) a db) (\<lambda>db'.
            allocate_svi_loop pkg show_id ty sid ps (if first_svi = None then Some a else first_svi) db')))"

definition allocate_svi_ip ::
    "('n4, 'n6) ipnetwork_pkg \<Rightarrow> (u128 \<Rightarrow> string) \<Rightarrow> ('n4, 'n6, 'd) network_segment \<Rightarrow> ('n4, 'n6, 'd) segment_db
       \<Rightarrow> db_error + (ip_addr \<times> ('n4, 'n6, 'd) segment_db)" where
  "allocate_svi_ip pkg show_id value db =
     bind_res (allocate_svi_loop pkg show_id (sc_segment_type (sr_config (seg_row value))) (seg_id value) (seg_prefixes value) None db)
       (\<lambda>(first_svi, db'). bind_res (ok_or first_svi (DbNotFoundError ''prefix'' (show_id (seg_id value))))
          (\<lambda>a. Inr (a, db')))"

subsection \<open>What a client sees\<close>

datatype tenant_state =
    TsProvisioning | TsReady | TsConfiguring | TsTerminating | TsTerminated | TsFailed
  | TsDpuReprovisioning | TsHostReprovisioning | TsUpdating | TsInvalid

definition segment_tenant_state :: "'d segment_row \<Rightarrow> tenant_state" where
  "segment_tenant_state r =
     (if is_marked_as_deleted r then TsTerminating
      else case ver_value (ss_controller_state (sr_status r)) of
             SegProvisioning \<Rightarrow> TsProvisioning | SegReady \<Rightarrow> TsReady | SegDeleting _ \<Rightarrow> TsTerminating)"

datatype segment_flag = NoOp | CanStretch

definition smells_like_fnn :: "('n4, 'n6) ipnetwork_pkg \<Rightarrow> ('n4, 'n6) network_prefix \<Rightarrow> bool" where
  "smells_like_fnn pkg p \<longleftrightarrow>
     np_vpc_prefix_id p \<noteq> None \<and> (case np_prefix p of Inl _ \<Rightarrow> 30 \<le> plen pkg (np_prefix p) | Inr _ \<Rightarrow> False)"

definition segment_flags :: "('n4, 'n6) ipnetwork_pkg \<Rightarrow> ('n4, 'n6, 'd) network_segment \<Rightarrow> segment_flag list" where
  "segment_flags pkg s =
     (let can_stretch = (case ss_can_stretch (sr_status (seg_row s)) of
                           Some b \<Rightarrow> b
                         | None \<Rightarrow> \<forall>p \<in> set (seg_prefixes s). \<not> smells_like_fnn pkg p);
          flags = (if can_stretch then [CanStretch] else [])
      in if flags = [] then [NoOp] else flags)"

definition gateway_cidr :: "(ip_addr \<Rightarrow> string) \<Rightarrow> ('n4, 'n6) ipnetwork_pkg \<Rightarrow> ('n4, 'n6) network_prefix \<Rightarrow> string option" where
  "gateway_cidr show_ip pkg p = map_option (\<lambda>g. show_ip g @ ''/'' @ show_nat (plen pkg (np_prefix p))) (np_gateway p)"

end
