(* ===== verification/Segment_Handler.thy ===== *)
theory Segment_Handler
  imports Process_Object Segment_Table
begin

text \<open>
  The state handler of network segments and its \<open>StateControllerIO\<close>
  (\<open>src/crates/api/src/state_controller/network_segment/handler.rs\<close>, \<open>io.rs\<close>), and what one run of the state
  controller on a segment does to the tables.

  What the handler takes from outside is the record \<open>segment_env\<close>: the readings of the clock, the addition of
  the drain period, which database calls fail, and what other processes commit before the handler's own
  transaction starts. A run that panics on counting the free addresses of a /0 prefix is a failed load.
\<close>

section \<open>Definitions\<close>

datatype segment_call =
    BeginTransaction | CountInterfaces | CountAddresses | ReleaseVni | ReleaseVlanId | FinalDelete

record ('n4, 'n6, 'd) segment_env =
  env_now :: 'd
  env_now_again :: 'd
  checked_add_drain :: "'d \<Rightarrow> 'd option"
  to_rfc3339 :: "'d \<Rightarrow> string"
  env_failure :: "segment_call \<Rightarrow> string option"
  env_others :: "('n4, 'n6, 'd) segment_db \<Rightarrow> ('n4, 'n6, 'd) segment_db"
  show_db_error :: "db_error \<Rightarrow> string"

record segment_metrics =
  sm_available_ips :: nat
  sm_reserved_ips :: nat
  sm_total_ips :: nat
  sm_name :: string
  sm_prefix :: string
  sm_type :: string
  sm_id :: string

text \<open>\<open>record_metrics\<close>; \<open>None\<close> is the panic of the size of a /0 network.\<close>

definition record_metrics ::
    "('n4, 'n6) ipnetwork_pkg \<Rightarrow> (('n4, 'n6) ip_network \<Rightarrow> string) \<Rightarrow> (u128 \<Rightarrow> string) \<Rightarrow> ('n4, 'n6, 'd) network_segment
       \<Rightarrow> segment_metrics \<Rightarrow> segment_metrics option" where
  "record_metrics pkg show_net show_id s metrics =
     (case seg_prefixes s of
        [] \<Rightarrow> Some metrics
      | p # _ \<Rightarrow>
          if sc_segment_type (sr_config (seg_row s)) = Tenant then Some metrics
          else map_option (\<lambda>total_cnt.
                 \<lparr>sm_available_ips = np_num_free_ips p, sm_reserved_ips = as_usize (np_num_reserved p),
                  sm_total_ips = total_cnt, sm_name = sc_name (sr_config (seg_row s)), sm_prefix = show_net (np_prefix p),
                  sm_type = segment_type_to_string (sc_segment_type (sr_config (seg_row s))), sm_id = show_id (seg_id s)\<rparr>)
                 (case np_prefix p of
                    Inl m \<Rightarrow> map_option unat (size4 pkg m)
                  | Inr m \<Rightarrow> map_option (\<lambda>_. 0) (size6 pkg m)))"

text \<open>A database call inside the handler: it may fail for reasons of its own.\<close>

definition db_call ::
    "('n4, 'n6, 'd) segment_env \<Rightarrow> segment_call \<Rightarrow> db_error + 'a \<Rightarrow> state_handler_error + 'a" where
  "db_call env c r =
     (case env_failure env c of
        Some e \<Rightarrow> Inl (DBError e)
      | None \<Rightarrow> map_err (\<lambda>e. DBError (show_db_error env e)) r)"

definition attach_txn :: "('s, 't) state_handler_outcome \<Rightarrow> 't \<Rightarrow> ('s, 't) state_handler_outcome" where
  "attach_txn out t = (case with_txn out t of Some out' \<Rightarrow> out' | None \<Rightarrow> out)"

definition drain_deadline :: "('n4, 'n6, 'd) segment_env \<Rightarrow> 'd" where
  "drain_deadline env =
     (case checked_add_drain env (env_now env) of Some t \<Rightarrow> t | None \<Rightarrow> env_now_again env)"

definition handler_rs :: string where
  "handler_rs = ''crates/api/src/state_controller/network_segment/handler.rs''"

definition handle_drain ::
    "('n4, 'n6, 'd::linorder) segment_env \<Rightarrow> u128 \<Rightarrow> 'd \<Rightarrow> ('n4, 'n6, 'd) segment_db
       \<Rightarrow> state_handler_error + ('d segment_state, ('n4, 'n6, 'd) segment_db) state_handler_outcome" where
  "handle_drain env sid deadline db =
     bind_res (begin_txn (env_failure env BeginTransaction) db) (\<lambda>txn.
     bind_res (db_call env CountInterfaces (Inr (count_interfaces txn sid))) (\<lambda>num_machine_interfaces.
     bind_res (db_call env CountAddresses (Inr (count_addresses txn sid))) (\<lambda>num_instance_addresses.
       if 0 < num_machine_interfaces + num_instance_addresses then
         Inr (attach_txn (transition (handler_rs, 155) (SegDeleting (DrainAllocatedIps (drain_deadline env)))) txn)
       else if deadline \<le> env_now env then
         Inr (attach_txn (transition (handler_rs, 161) (SegDeleting DBDelete)) txn)
       else Inr (attach_txn (wait (handler_rs, 163)
              (''Cannot delete from database until draining completes at '' @ to_rfc3339 env deadline)) txn))))"

definition release_value ::
    "('n4, 'n6, 'd) segment_env \<Rightarrow> segment_call \<Rightarrow> resource_pool \<Rightarrow> int option \<Rightarrow> ('n4, 'n6, 'd) segment_db
       \<Rightarrow> state_handler_error + ('n4, 'n6, 'd) segment_db" where
  "release_value env c pool v db =
     (case v of None \<Rightarrow> Inr db
      | Some i \<Rightarrow> db_call env c (Inr (db\<lparr>db_pools := release show_int pool (db_pools db) i\<rparr>)))"

definition handle_db_delete ::
    "resource_pool \<Rightarrow> resource_pool \<Rightarrow> ('n4, 'n6, 'd) segment_env \<Rightarrow> u128 \<Rightarrow> 'd segment_status \<Rightarrow> ('n4, 'n6, 'd) segment_db
       \<Rightarrow> state_handler_error + ('d segment_state, ('n4, 'n6, 'd) segment_db) state_handler_outcome" where
  "handle_db_delete pool_vlan_id pool_vni env sid status db =
     bind_res (begin_txn (env_failure env BeginTransaction) db) (\<lambda>txn.
     bind_res (release_value env ReleaseVni pool_vni (ss_vni status) txn) (\<lambda>txn1.
     bind_res (release_value env ReleaseVlanId pool_vlan_id (ss_vlan_id status) txn1) (\<lambda>txn2.
     bind_res (db_call env FinalDelete (final_delete sid txn2)) (\<lambda>txn3.
       Inr (attach_txn (deleted (handler_rs, 184)) txn3)))))"

fun handle_object_state ::
    "resource_pool \<Rightarrow> resource_pool \<Rightarrow> ('n4, 'n6, 'd::linorder) segment_env \<Rightarrow> u128 \<Rightarrow> ('n4, 'n6, 'd) network_segment
       \<Rightarrow> 'd segment_state \<Rightarrow> ('n4, 'n6, 'd) segment_db
       \<Rightarrow> state_handler_error + ('d segment_state, ('n4, 'n6, 'd) segment_db) state_handler_outcome" where
  "handle_object_state pool_vlan_id pool_vni env sid s SegProvisioning db = Inr (transition (handler_rs, 108) SegReady)"
| "handle_object_state pool_vlan_id pool_vni env sid s SegReady db =
     (if is_marked_as_deleted (seg_row s)
      then Inr (transition (handler_rs, 121) (SegDeleting (DrainAllocatedIps (drain_deadline env))))
      else Inr (do_nothing (handler_rs, 123)))"
| "handle_object_state pool_vlan_id pool_vni env sid s (SegDeleting (DrainAllocatedIps deadline)) db =
     handle_drain env (seg_id s) deadline db"
| "handle_object_state pool_vlan_id pool_vni env sid s (SegDeleting DBDelete) db =
     handle_db_delete pool_vlan_id pool_vni env sid (sr_status (seg_row s)) db"

definition segment_handler ::
    "resource_pool \<Rightarrow> resource_pool \<Rightarrow> ('n4, 'n6, 'd::linorder) segment_env
       \<Rightarrow> (('n4, 'n6, 'd) segment_db, u128, ('n4, 'n6, 'd) network_segment, 'd segment_state) handler" where
  "segment_handler pool_vlan_id pool_vni env sid s cs db =
     (let db1 = env_others env db in (db1, handle_object_state pool_vlan_id pool_vni env sid s cs db1, []))"

text \<open>\<open>fault\<close> is what the database answers when a query of the given name fails; \<open>show_err\<close> prints an error.\<close>

definition load_segment ::
    "('n4, 'n6) ipnetwork_pkg \<Rightarrow> (u128 \<Rightarrow> string) \<Rightarrow> ('n4, 'n6, 'd) segment_db \<Rightarrow> u128
       \<Rightarrow> db_error + ('n4, 'n6, 'd) network_segment option" where
  "load_segment pkg show_id db sid =
     bind_res (find_by pkg db id_column (ColumnOne sid) \<lparr>include_history = False, include_num_free_ips = True\<rparr>) (\<lambda>segments.
       case segments of
         [] \<Rightarrow> Inr None
       | [segment] \<Rightarrow> Inr (Some segment)
       | _ \<Rightarrow> Inl (DbQuery (''Searching for NetworkSegment '' @ show_id sid @ '' returned multiple results'')))"

definition query_or :: "(string \<Rightarrow> string option) \<Rightarrow> string \<Rightarrow> string + 'a \<Rightarrow> string + 'a" where
  "query_or fault name r = (case fault name of Some e \<Rightarrow> Inl e | None \<Rightarrow> r)"

definition segment_io ::
    "('n4, 'n6) ipnetwork_pkg \<Rightarrow> (u128 \<Rightarrow> string) \<Rightarrow> (db_error \<Rightarrow> string) \<Rightarrow> (string \<Rightarrow> string option) \<Rightarrow> ('d \<Rightarrow> 'd \<Rightarrow> int) \<Rightarrow> 'd
       \<Rightarrow> (('n4, 'n6, 'd) segment_db, u128, ('n4, 'n6, 'd) network_segment, 'd segment_state, 'd) controller_io" where
  "segment_io pkg show_id show_err fault since clk =
     \<lparr>load_object_state = (\<lambda>db sid. query_or fault ''find_by'' (map_err show_err (load_segment pkg show_id db sid))),
       load_controller_state = (\<lambda>db sid s. Inr (ss_controller_state (sr_status (seg_row s)))),
       persist_controller_state = (\<lambda>db sid old next cs.
         query_or fault ''try_update_controller_state'' (Inr (try_update_controller_state sid old next cs db))),
       persist_state_history = (\<lambda>db sid version cs. query_or fault ''state_history'' (Inr (record_state clk sid cs version db))),
       persist_outcome = (\<lambda>db sid outcome.
         query_or fault ''update_controller_state_outcome'' (Inr (update_controller_state_outcome sid outcome db))),
       state_above_sla = (\<lambda>cs s. time_above_sla (segment_state_sla since clk (ver_value cs) (ver_version cs)))\<rparr>"

section \<open>The contract of the state controller on the segment tables\<close>

definition segment_stored :: "('n4, 'n6, 'd) segment_db \<Rightarrow> u128 \<Rightarrow> ('d segment_state, 'd) versioned option" where
  "segment_stored db sid = map_option (\<lambda>r. ss_controller_state (sr_status r)) (map_of (db_segments db) sid)"

definition segment_history :: "('n4, 'n6, 'd) segment_db \<Rightarrow> u128 \<Rightarrow> ('d config_version \<times> 'd segment_state) list" where
  "segment_history db sid = map (\<lambda>r. (hr_version r, hr_state r)) (for_object sid (db_history db))"

lemma update_num_free_keeps: "update_num_free_ips pkg db s = Inr s' \<Longrightarrow> seg_row s' = seg_row s \<and> seg_id s' = seg_id s"
  by (auto simp: update_num_free_ips_def elim!: bind_res_InrE split: list.split_asm option.split_asm sum.split_asm)

lemma load_segment_row:
  assumes "load_segment pkg show_id db sid = Inr (Some s)"
  shows "map_of (db_segments db) sid = Some (seg_row s) \<and> seg_id s = sid"
proof -
  let ?irs = "filter (\<lambda>ir. fst ir = sid) (db_segments db)"
  from assms have "collect_res (update_num_free_ips pkg db) (map (snapshot db False) ?irs) = Inr [s]"
    by (auto simp: load_segment_def find_by_def id_column_def Let_def elim!: bind_res_InrE split: list.split_asm)
  from collect_res_list_all2 [OF this] obtain ir where ir: "?irs = [ir]" "update_num_free_ips pkg db (snapshot db False ir) = Inr s"
    by (auto simp: list_all2_Cons2 map_eq_Cons_conv)
  have "ir \<in> set ?irs" using ir(1) by simp
  with map_of_filter_key [OF ir(1)] update_num_free_keeps [OF ir(2)] show ?thesis by (simp add: snapshot_def)
qed

lemma segment_stored_update:
  "segment_stored (update_segment sid f db) i =
     (if i = sid then map_option (\<lambda>r. ss_controller_state (sr_status (f r))) (map_of (db_segments db) sid)
      else segment_stored db i)"
  by (simp add: segment_stored_def update_segment_def map_of_map_entry option.map_comp comp_def split: option.split)

lemma segment_history_update [simp]: "segment_history (update_segment sid f db) = segment_history db"
  by (simp add: fun_eq_iff segment_history_def update_segment_def)

lemma keep_limit_map: "map f (keep_limit xs) = keep_limit (map f xs)"
  by (simp add: keep_limit_def drop_map)

lemma segment_history_record:
  "segment_history (record_state clk sid cs version db) =
     (segment_history db)(sid := keep_limit (segment_history db sid @ [(version, cs)]))"
  by (auto simp: fun_eq_iff segment_history_def record_state_def for_object_persist keep_limit_map)

lemma segment_stored_record [simp]: "segment_stored (record_state clk sid cs version db) = segment_stored db"
  by (simp add: fun_eq_iff segment_stored_def record_state_def)

lemma query_or_Inr [simp]: "query_or fault name r = Inr x \<longleftrightarrow> fault name = None \<and> r = Inr x"
  by (auto simp: query_or_def split: option.splits)

interpretation segments: controller_store "segment_io pkg show_id show_err fault since clk" segment_stored segment_history
  for pkg show_id show_err fault since clk
proof (unfold_locales, goal_cases)
  case (1 db oid sn v)
  then show ?case
    using load_segment_row [of pkg show_id db oid sn] by (auto simp: loaded_def segment_io_def segment_stored_def)
next
  case (2 db oid old new cs db')
  then have m: "try_update_controller_state oid old new cs db = (True, db')"
    by (auto simp: segment_io_def)
  then obtain r where r: "map_of (db_segments db) oid = Some r" "ver_version (ss_controller_state (sr_status r)) = old"
    by (auto simp: try_update_controller_state_def split: option.splits if_splits)
  with m show ?case
    by (auto simp: try_update_controller_state_def fun_eq_iff segment_stored_update) (auto simp: segment_stored_def)
next
  case (3 db oid old new cs db')
  then show ?case
    by (auto simp: segment_io_def try_update_controller_state_def segment_stored_def split: option.splits if_splits)
next
  case (4 db oid new cs db')
  then show ?case by (auto simp: segment_io_def segment_history_record)
next
  case (5 db oid po db')
  then have "db' = update_controller_state_outcome oid po db" by (auto simp: segment_io_def)
  then show ?case
    by (auto simp: update_controller_state_outcome_def fun_eq_iff segment_stored_update)
       (auto simp: segment_stored_def option.map_comp comp_def)
qed

section \<open>The lifecycle of a segment\<close>

text \<open>The transitions of the lifecycle with their guards: \<open>idle\<close> says that no interface and no address is left
  on the segment, \<open>marked\<close> that its deletion was requested.\<close>

inductive segment_moves :: "bool \<Rightarrow> bool \<Rightarrow> 'd::linorder \<Rightarrow> 'd segment_state \<Rightarrow> 'd segment_state \<Rightarrow> bool"
  for idle marked clk where
  provisioned: "segment_moves idle marked clk SegProvisioning SegReady"
| drain: "marked \<Longrightarrow> segment_moves idle marked clk SegReady (SegDeleting (DrainAllocatedIps d))"
| postpone: "\<not> idle \<Longrightarrow> segment_moves idle marked clk (SegDeleting (DrainAllocatedIps d)) (SegDeleting (DrainAllocatedIps d'))"
| drained: "idle \<Longrightarrow> d \<le> clk \<Longrightarrow> segment_moves idle marked clk (SegDeleting (DrainAllocatedIps d)) (SegDeleting DBDelete)"

definition segment_idle :: "('n4, 'n6, 'd) segment_db \<Rightarrow> u128 \<Rightarrow> bool" where
  "segment_idle db sid \<longleftrightarrow> count_interfaces db sid = 0 \<and> count_addresses db sid = 0"

text \<open>The tables without the segment and with its numbers back in their pools.\<close>

definition release_opt :: "resource_pool \<Rightarrow> int option \<Rightarrow> 'd pool_table \<Rightarrow> 'd pool_table" where
  "release_opt pool v t = (case v of None \<Rightarrow> t | Some i \<Rightarrow> release show_int pool t i)"

definition segment_removed ::
    "resource_pool \<Rightarrow> resource_pool \<Rightarrow> u128 \<Rightarrow> 'd segment_status \<Rightarrow> ('n4, 'n6, 'd) segment_db \<Rightarrow> ('n4, 'n6, 'd) segment_db" where
  "segment_removed pool_vlan_id pool_vni sid status db =
     db\<lparr>db_segments := filter (\<lambda>ir. fst ir \<noteq> sid) (db_segments db),
        db_prefixes := filter (\<lambda>p. np_segment_id p \<noteq> sid) (db_prefixes db),
        db_network_defs := filter (\<lambda>d. fst (snd d) \<noteq> sid) (db_network_defs db),
        db_pools := release_opt pool_vlan_id (ss_vlan_id status) (release_opt pool_vni (ss_vni status) (db_pools db))\<rparr>"

lemma attach_txn_simps [simp]:
  "attach_txn (transition l s) t = Transition s l (Some t)" "attach_txn (wait l r) t = Wait r l (Some t)"
  "attach_txn (deleted l) t = Deleted l (Some t)"
  by (simp_all add: attach_txn_def with_txn_def with_txn_opt_def transition_def wait_def deleted_def)

lemma db_call_Inr [simp]: "db_call env c r = Inr x \<longleftrightarrow> env_failure env c = None \<and> r = Inr x"
  by (auto simp: db_call_def split: option.splits)

lemma final_delete_Inr:
  "final_delete sid db = Inr db' \<longleftrightarrow>
     sid \<in> fst ` set (db_segments db) \<and> count_interfaces db sid = 0
     \<and> db' = db\<lparr>db_segments := filter (\<lambda>ir. fst ir \<noteq> sid) (db_segments db),
                db_prefixes := filter (\<lambda>p. np_segment_id p \<noteq> sid) (db_prefixes db),
                db_network_defs := filter (\<lambda>d. fst (snd d) \<noteq> sid) (db_network_defs db)\<rparr>"
  by (auto simp: final_delete_def delete_segment_def delete_for_segment_def count_interfaces_def)

lemma release_value_Inr:
  "release_value env c pool v db = Inr db' \<longleftrightarrow>
     (v = None \<or> env_failure env c = None) \<and> db' = db\<lparr>db_pools := release_opt pool v (db_pools db)\<rparr>"
  by (auto simp: release_value_def release_opt_def split: option.splits)

lemma handle_db_delete_Inr:
  "handle_db_delete pool_vlan_id pool_vni env sid status db = Inr out \<Longrightarrow>
     count_interfaces db sid = 0 \<and> out = Deleted (handler_rs, 184) (Some (segment_removed pool_vlan_id pool_vni sid status db))"
  by (auto simp: handle_db_delete_def release_value_Inr final_delete_Inr segment_removed_def count_interfaces_def
      elim!: bind_res_InrE)

lemma handle_drain_Inr:
  "handle_drain env sid d db = Inr out \<Longrightarrow>
     (if \<not> segment_idle db sid then out = Transition (SegDeleting (DrainAllocatedIps (drain_deadline env))) (handler_rs, 155) (Some db)
      else if d \<le> env_now env then out = Transition (SegDeleting DBDelete) (handler_rs, 161) (Some db)
      else \<exists>reason. out = Wait reason (handler_rs, 163) (Some db))"
  by (auto simp: handle_drain_def segment_idle_def elim!: bind_res_InrE split: if_splits)

lemma handler_transition:
  assumes "handle_object_state pool_vlan_id pool_vni env sid s cs db = Inr (Transition n l x)"
  shows "segment_moves (segment_idle db (seg_id s)) (is_marked_as_deleted (seg_row s)) (env_now env) cs n"
proof (cases cs)
  case (SegDeleting d)
  show ?thesis
  proof (cases d)
    case (DrainAllocatedIps t)
    with SegDeleting assms have "handle_drain env (seg_id s) t db = Inr (Transition n l x)" by simp
    from handle_drain_Inr [OF this] show ?thesis
      by (auto simp: SegDeleting DrainAllocatedIps split: if_splits intro: segment_moves.intros)
  next
    case DBDelete
    with SegDeleting assms show ?thesis by (auto dest: handle_db_delete_Inr)
  qed
qed (use assms in \<open>auto simp: transition_def do_nothing_def split: if_splits intro: segment_moves.intros\<close>)

lemma handler_deleted:
  assumes "handle_object_state pool_vlan_id pool_vni env sid s cs db = Inr (Deleted l x)"
  shows "cs = SegDeleting DBDelete \<and> count_interfaces db sid = 0
    \<and> x = Some (segment_removed pool_vlan_id pool_vni sid (sr_status (seg_row s)) db)"
proof (cases cs)
  case (SegDeleting d)
  with assms show ?thesis
    by (cases d) (auto dest!: handle_db_delete_Inr handle_drain_Inr split: if_splits)
qed (use assms in \<open>auto simp: transition_def do_nothing_def split: if_splits\<close>)

lemma handler_txn:
  assumes "handle_object_state pool_vlan_id pool_vni env sid s cs db = Inr out" and "fst (take_transaction out) = Some t"
    and "\<forall>l x. out \<noteq> Deleted l x"
  shows "t = db"
proof (cases cs)
  case (SegDeleting d)
  with assms show ?thesis
    by (cases d) (auto dest!: handle_db_delete_Inr handle_drain_Inr split: if_splits)
qed (use assms in \<open>auto simp: transition_def do_nothing_def split: if_splits\<close>)

lemma segment_handler_frame:
  assumes "segment_handler pool_vlan_id pool_vni senv sid s cs db = (db1, out, pending)"
  shows "handler_frame segment_stored segment_history db1 out pending"
proof -
  from assms have out: "out = handle_object_state pool_vlan_id pool_vni senv sid s cs db1" and p: "pending = []"
    by (auto simp: segment_handler_def Let_def)
  have "t = db1" if "out = Inr o'" "\<forall>l x. o' \<noteq> Deleted l x" "fst (take_transaction o') = Some t" for o' t
    by (rule handler_txn [OF out [symmetric, unfolded that(1)] that(3,2)])
  then show ?thesis by (simp add: handler_frame_def same_state_def p)
qed

section \<open>Runs of the state controller on a segment\<close>

lemma segment_run_cases:
  assumes "process_object (segment_io pkg show_id show_err fault since clk) (segment_handler pool_vlan_id pool_vni senv)
      show_id show_state env db sid = (db2, m)"
  shows "db2 = db \<or> (\<exists>r cs. map_of (db_segments db) sid = Some r \<and> cs = ss_controller_state (sr_status r)
      \<and> (same_state segment_stored segment_history db2 (env_others senv db)
         \<or> (\<exists>s. segment_moves (segment_idle (env_others senv db) sid) (is_marked_as_deleted r) (env_now senv) (ver_value cs) s
              \<and> stepped segment_stored segment_history (env_others senv db) db2 sid (ver_version cs) (increment_time env) s)
         \<or> (ver_value cs = SegDeleting DBDelete \<and> count_interfaces (env_others senv db) sid = 0
              \<and> db2 = segment_removed pool_vlan_id pool_vni sid (sr_status r) (env_others senv db))))"
proof (cases "db2 = db")
  case False
  have "\<forall>sn cs db1 out pending. segment_handler pool_vlan_id pool_vni senv sid sn cs db = (db1, out, pending) \<longrightarrow>
      handler_frame segment_stored segment_history db1 out pending"
    by (simp add: segment_handler_frame)
  from segments.process_object_step [OF assms this] False obtain sn cs out
    where l: "loaded (segment_io pkg show_id show_err fault since clk) db sid sn cs"
      and out: "out = handle_object_state pool_vlan_id pool_vni senv sid sn (ver_value cs) (env_others senv db)"
      and c: "same_state segment_stored segment_history db2 (env_others senv db)
        \<or> (\<exists>s l x. out = Inr (Transition s l x)
              \<and> stepped segment_stored segment_history (env_others senv db) db2 sid (ver_version cs) (increment_time env) s)
        \<or> (\<exists>l x. out = Inr (Deleted l x) \<and> db2 = deletion_txn (env_others senv db) x [])"
    by (auto simp: segment_handler_def Let_def)
  from l have "load_segment pkg show_id db sid = Inr (Some sn)" "cs = ss_controller_state (sr_status (seg_row sn))"
    by (auto simp: loaded_def segment_io_def)
  with load_segment_row have r: "map_of (db_segments db) sid = Some (seg_row sn)" "seg_id sn = sid"
      "cs = ss_controller_state (sr_status (seg_row sn))" by blast+
  from c show ?thesis
  proof (elim disjE exE conjE)
    fix s l x
    assume o: "out = Inr (Transition s l x)"
      and "stepped segment_stored segment_history (env_others senv db) db2 sid (ver_version cs) (increment_time env) s"
    with r show ?thesis using handler_transition [OF out [symmetric, unfolded o]] by auto
  next
    fix l x
    assume o: "out = Inr (Deleted l x)" and "db2 = deletion_txn (env_others senv db) x []"
    with r show ?thesis using handler_deleted [OF out [symmetric, unfolded o]] by (auto simp: deletion_txn_def)
  qed (use r in auto)
qed simp

text \<open>
  C1. A run of the state controller on a network segment changes lifecycle states and histories in no other way
  than this: the tables are those the other processes left, or the segment made one guarded step of its
  lifecycle, under optimistic locking and with one new history entry, or it was in its final state with no
  interface left and is removed with its prefixes and its numbers returned to the pools. The guards: only a
  segment marked for deletion starts to drain, and it leaves draining only when its deadline has passed and no
  interface and no address is left on it.
\<close>

theorem segment_run_safe:
  "case process_object (segment_io pkg show_id show_err fault since clk) (segment_handler pool_vlan_id pool_vni senv)
      show_id show_state env db sid of (db2, m) \<Rightarrow>
   let db1 = env_others senv db in
   db2 = db \<or> (\<exists>r cs. map_of (db_segments db) sid = Some r \<and> cs = ss_controller_state (sr_status r)
     \<and> (same_state segment_stored segment_history db2 db1
        \<or> (\<exists>s. segment_moves (segment_idle db1 sid) (is_marked_as_deleted r) (env_now senv) (ver_value cs) s
             \<and> stepped segment_stored segment_history db1 db2 sid (ver_version cs) (increment_time env) s)
        \<or> (ver_value cs = SegDeleting DBDelete \<and> count_interfaces db1 sid = 0
             \<and> db2 = segment_removed pool_vlan_id pool_vni sid (sr_status r) db1)))"
  by (simp only: Let_def split: prod.split) (intro allI impI, rule segment_run_cases)

end
