(* ===== verification/Segment_Api.thy ===== *)
theory Segment_Api
  imports Segment_Handler
begin

text \<open>
  The requests on network segments (\<open>src/crates/api/src/handlers/network_segment.rs\<close>) and the creation of the
  networks of the configuration file at start-up (\<open>src/crates/api/src/db_init.rs\<close>), and what holds of the segment
  tables after any sequence of requests, controller runs and start-ups.

  A request runs in one transaction: its result is the content it commits, and an error leaves the tables as
  they were. The record \<open>api_env\<close> holds the time, the version of a new object, the identifiers drawn, and the
  rows and choices of the resource pools.
\<close>

section \<open>Definitions\<close>

record 'd api_env =
  ae_time :: 'd
  ae_version :: "'d config_version"
  ae_fresh :: u128
  ae_draw :: "nat \<Rightarrow> u128"
  ae_locked :: "'d pool_row \<Rightarrow> bool"
  ae_pick :: nat

record ('n4, 'n6) api_site =
  as_pkg :: "('n4, 'n6) ipnetwork_pkg"
  as_parse_net :: "string \<Rightarrow> string + ('n4, 'n6) ip_network"
  as_show_net :: "('n4, 'n6) ip_network \<Rightarrow> string"
  as_show_id :: "u128 \<Rightarrow> string"
  as_is_subnet_of :: "('n4, 'n6) ip_network \<Rightarrow> ('n4, 'n6) ip_network \<Rightarrow> bool"
  as_site_fabric_prefixes :: "('n4, 'n6) ip_network list option"
  as_pool_vlan_id :: resource_pool
  as_pool_vni :: resource_pool

datatype carbide_error =
    CarbideDb db_error
  | CarbideInvalidArgument string
  | CarbideInternal string
  | CarbideNotFound string string
  | CarbideResourceExhausted string
  | CarbidePool pool_error
  | CarbideRpc rpc_error
  | CarbideMissingArgument string

text \<open>\<open>i16::from_str\<close> and \<open>i32::from_str\<close>.\<close>

definition parse_int_in :: "int \<Rightarrow> int \<Rightarrow> string \<Rightarrow> string + int" where
  "parse_int_in lo hi s =
     bind_res (parse_i64 s) (\<lambda>i.
       if hi < i then Inl ''number too large to fit in target type''
       else if i < lo then Inl ''number too small to fit in target type'' else Inr i)"

definition parse_i16 :: "string \<Rightarrow> string + int" where
  "parse_i16 = parse_int_in (- (2 ^ 15)) (2 ^ 15 - 1)"

definition parse_i32 :: "string \<Rightarrow> string + int" where
  "parse_i32 = parse_int_in (- (2 ^ 31)) (2 ^ 31 - 1)"

text \<open>\<open>SiteFabricPrefixList::from_ipnetwork_vec\<close> and \<open>contains\<close>.\<close>

definition from_ipnetwork_vec :: "('n4, 'n6) ip_network list \<Rightarrow> ('n4, 'n6) ip_network list option" where
  "from_ipnetwork_vec prefixes = (if prefixes = [] then None else Some prefixes)"

definition site_fabric_contains ::
    "('n4, 'n6) api_site \<Rightarrow> ('n4, 'n6) ip_network list \<Rightarrow> ('n4, 'n6) ip_network \<Rightarrow> bool" where
  "site_fabric_contains site prefixes network \<longleftrightarrow>
     (\<exists>site_prefix \<in> set prefixes. isl network = isl site_prefix \<and> as_is_subnet_of site network site_prefix)"

definition allocate_number ::
    "'d api_env \<Rightarrow> (string \<Rightarrow> string + int) \<Rightarrow> resource_pool \<Rightarrow> string \<Rightarrow> string \<Rightarrow> ('n4, 'n6, 'd) segment_db
       \<Rightarrow> carbide_error + (int \<times> ('n4, 'n6, 'd) segment_db)" where
  "allocate_number env parse pool exhausted owner_id db =
     (case allocate show_int parse (ae_locked env) (ae_pick env) (ae_time env) pool (db_pools db) OwnerNetworkSegment owner_id None of
        (t, Inr v) \<Rightarrow> Inr (v, db\<lparr>db_pools := t\<rparr>)
      | (t, Inl PoolEmpty) \<Rightarrow> Inl (CarbideResourceExhausted exhausted)
      | (t, Inl e) \<Rightarrow> Inl (CarbidePool e))"

definition allocate_vlan_id :: "('n4, 'n6) api_site \<Rightarrow> 'd api_env \<Rightarrow> string \<Rightarrow> ('n4, 'n6, 'd) segment_db
       \<Rightarrow> carbide_error + (int \<times> ('n4, 'n6, 'd) segment_db)" where
  "allocate_vlan_id site env = allocate_number env parse_i16 (as_pool_vlan_id site) ''pool vlan_id''"

definition allocate_vni :: "('n4, 'n6) api_site \<Rightarrow> 'd api_env \<Rightarrow> string \<Rightarrow> ('n4, 'n6, 'd) segment_db
       \<Rightarrow> carbide_error + (int \<times> ('n4, 'n6, 'd) segment_db)" where
  "allocate_vni site env = allocate_number env parse_i32 (as_pool_vni site) ''pool vni''"

definition save ::
    "('n4, 'n6) api_site \<Rightarrow> 'd api_env \<Rightarrow> ('n4, 'n6) new_network_segment \<Rightarrow> bool \<Rightarrow> bool \<Rightarrow> ('n4, 'n6, 'd) segment_db
       \<Rightarrow> carbide_error + (('n4, 'n6, 'd) segment_db \<times> ('n4, 'n6, 'd) network_segment)" where
  "save site env ns set_to_ready with_svi db =
     bind_res (if nns_segment_type ns \<noteq> Underlay then
                 bind_res (allocate_vlan_id site env (nns_name ns) db) (\<lambda>(vlan, db1).
                 bind_res (allocate_vni site env (nns_name ns) db1) (\<lambda>(vni, db2).
                   Inr (ns\<lparr>nns_vlan_id := Some vlan, nns_vni := Some vni\<rparr>, db2)))
               else Inr (ns, db)) (\<lambda>(ns', db').
     bind_res (case persist_segment (as_pkg site) (ae_draw env) (ae_time env) (ae_version env) ns'
                      (if set_to_ready then SegReady else SegProvisioning) db' of
                 Inr r \<Rightarrow> Inr r
               | Inl (ConstraintViolation c) \<Rightarrow>
                   if c = ''network_prefixes_prefix_excl'' then Inl (CarbideInvalidArgument ''Prefix overlaps with an existing one'')
                   else Inl (CarbideDb (ConstraintViolation c))
               | Inl e \<Rightarrow> Inl (CarbideDb e)) (\<lambda>(db2, segment).
       if with_svi then
         bind_res (map_err CarbideDb (allocate_svi_ip (as_pkg site) (as_show_id site) segment db2)) (\<lambda>(_, db3).
         bind_res (map_err CarbideDb (find_by (as_pkg site) db3 id_column (ColumnOne (seg_id segment)) default_search)) (\<lambda>segments.
           case segments of
             [] \<Rightarrow> Inl (CarbideNotFound ''NetworkSegment'' (as_show_id site (seg_id segment)))
           | s # _ \<Rightarrow> Inr (db3, s)))
       else Inr (db2, segment)))"

fun join :: "string \<Rightarrow> string list \<Rightarrow> string" where
  "join sep [] = []"
| "join sep [x] = x"
| "join sep (x # y # xs) = x @ sep @ join sep (y # xs)"

text \<open>The check of the prefixes against the site fabric prefixes, and the check against the VPC, which decides
  whether SVI addresses are allocated.\<close>

definition check_site_fabric :: "('n4, 'n6) api_site \<Rightarrow> ('n4, 'n6) new_network_segment \<Rightarrow> carbide_error + unit" where
  "check_site_fabric site ns =
     (case as_site_fabric_prefixes site of
        Some prefixes \<Rightarrow>
          if is_tenant (nns_segment_type ns) then
            (let uncontained = filter (\<lambda>n. \<not> site_fabric_contains site prefixes n) (map nnp_prefix (nns_prefixes ns))
             in if uncontained = [] then Inr ()
                else Inl (CarbideInvalidArgument (''One or more requested network segment prefixes were not contained within the configured site fabric prefixes: ''
                       @ join '', '' (map (as_show_net site) uncontained))))
          else Inr ()
      | None \<Rightarrow> Inr ())"

definition find_vpc :: "('n4, 'n6, 'd) segment_db \<Rightarrow> u128 \<Rightarrow> vpc_row list" where
  "find_vpc db vpc_id = map snd (filter (\<lambda>v. fst v = vpc_id \<and> \<not> vp_deleted (snd v)) (db_vpcs db))"

definition check_vpc ::
    "('n4, 'n6) api_site \<Rightarrow> ('n4, 'n6) new_network_segment \<Rightarrow> ('n4, 'n6, 'd) segment_db \<Rightarrow> carbide_error + bool" where
  "check_vpc site ns db =
     (case nns_vpc_id ns of
        None \<Rightarrow> Inr False
      | Some vpc_id \<Rightarrow>
          (case find_vpc db vpc_id of
             [] \<Rightarrow> Inl (CarbideInternal (''VPC ID: '' @ as_show_id site vpc_id @ '' not found.''))
           | vpc # _ \<Rightarrow>
               if vp_virtualization_type vpc \<noteq> Fnn \<and> (\<exists>p \<in> set (nns_prefixes ns). \<not> isl (nnp_prefix p))
               then Inl (CarbideInvalidArgument ''IPv6 network segments are only supported for FNN VPCs'')
               else Inr ((case nns_can_stretch ns of Some b \<Rightarrow> b | None \<Rightarrow> True) \<and> vp_virtualization_type vpc = Fnn)))"

definition create_segment ::
    "('n4, 'n6) api_site \<Rightarrow> 'd api_env \<Rightarrow> segment_creation_request \<Rightarrow> ('n4, 'n6, 'd) segment_db
       \<Rightarrow> carbide_error + (('n4, 'n6, 'd) segment_db \<times> ('n4, 'n6, 'd) network_segment)" where
  "create_segment site env request db =
     bind_res (map_err CarbideRpc (new_network_segment_try_from (as_pkg site) (as_parse_net site) (ae_fresh env) request)) (\<lambda>ns.
     bind_res (check_site_fabric site ns) (\<lambda>_.
     bind_res (check_vpc site ns db) (\<lambda>with_svi. save site env ns False with_svi db)))"

definition delete_segment_request ::
    "('n4, 'n6) api_site \<Rightarrow> 'd api_env \<Rightarrow> u128 option \<Rightarrow> ('n4, 'n6, 'd) segment_db \<Rightarrow> carbide_error + ('n4, 'n6, 'd) segment_db" where
  "delete_segment_request site env i db =
     bind_res (ok_or i (CarbideMissingArgument ''id'')) (\<lambda>sid.
     bind_res (map_err CarbideDb (find_by (as_pkg site) db id_column (ColumnOne sid) default_search)) (\<lambda>segments.
       case segments of
         [segment] \<Rightarrow> map_err CarbideDb (mark_as_deleted (ae_time env) (seg_id segment) db)
       | _ \<Rightarrow> Inl (CarbideNotFound ''network segment'' (as_show_id site sid))))"

subsection \<open>Start-up\<close>

definition ensure_static_assignments_segment ::
    "('n4, 'n6) api_site \<Rightarrow> 'd api_env \<Rightarrow> u128 option \<Rightarrow> ('n4, 'n6, 'd) segment_db \<Rightarrow> carbide_error + ('n4, 'n6, 'd) segment_db" where
  "ensure_static_assignments_segment site env subdomain_id db =
     (case find_by_name db STATIC_ASSIGNMENTS_SEGMENT_NAME of
        Inr _ \<Rightarrow> Inr db
      | Inl _ \<Rightarrow>
          (case as_parse_net site ''169.254.254.254/32'' of
             Inl _ \<Rightarrow> Inl (CarbideDb DbPanicked)
           | Inr prefix \<Rightarrow>
               bind_res (save site env
                 \<lparr>nns_id = ae_fresh env, nns_name = STATIC_ASSIGNMENTS_SEGMENT_NAME, nns_subdomain_id = subdomain_id,
                  nns_vpc_id = None, nns_mtu = 1500,
                  nns_prefixes = [\<lparr>nnp_prefix = prefix, nnp_gateway = None, nnp_num_reserved = 1\<rparr>],
                  nns_vlan_id = None, nns_vni = None, nns_segment_type = Underlay, nns_can_stretch = Some False,
                  nns_allocation_strategy = Reserved\<rparr> True False db) (\<lambda>(db', _). Inr db')))"

definition create_initial_network ::
    "('n4, 'n6) api_site \<Rightarrow> 'd api_env \<Rightarrow> u128 \<Rightarrow> string \<times> network_definition \<Rightarrow> ('n4, 'n6, 'd) segment_db
       \<Rightarrow> carbide_error + ('n4, 'n6, 'd) segment_db" where
  "create_initial_network site env domain_id nd db =
     (case find_by_name db (fst nd) of
        Inr _ \<Rightarrow> Inr db
      | Inl _ \<Rightarrow>
          bind_res (map_err CarbideRpc (build_from (as_parse_net site) (ae_fresh env) (fst nd) domain_id (snd nd))) (\<lambda>ns.
          bind_res (save site env (ns\<lparr>nns_can_stretch := Some True\<rparr>) True False db) (\<lambda>(db', _).
            map_err CarbideDb (insert_network_def (fst nd) (nns_id ns) (snd nd) db'))))"

text \<open>\<open>envs\<close> gives what the creation of each network draws.\<close>

definition create_initial_networks ::
    "('n4, 'n6) api_site \<Rightarrow> (string \<Rightarrow> 'd api_env) \<Rightarrow> (string \<times> network_definition) list \<Rightarrow> ('n4, 'n6, 'd) segment_db
       \<Rightarrow> carbide_error + ('n4, 'n6, 'd) segment_db" where
  "create_initial_networks site envs networks db =
     (case db_domains db of
        [domain_id] \<Rightarrow>
          bind_res (map_err CarbideDb (reconcile_network_defs networks db)) (\<lambda>db1.
          bind_res (fold_res (\<lambda>nd. create_initial_network site (envs (fst nd)) domain_id nd) networks db1) (\<lambda>db2.
            ensure_static_assignments_segment site (envs STATIC_ASSIGNMENTS_SEGMENT_NAME) (Some domain_id) db2))
      | _ \<Rightarrow> Inr db)"

text \<open>The segments that get SVI addresses at start-up; each in a transaction of its own, and an error is
  only logged.\<close>

definition needs_svi_ip :: "('n4, 'n6, 'd) segment_db \<Rightarrow> ('n4, 'n6, 'd) network_segment \<Rightarrow> bool" where
  "needs_svi_ip db s \<longleftrightarrow>
     ss_can_stretch (sr_status (seg_row s)) = Some True
     \<and> (case sc_vpc_id (sr_config (seg_row s)) of None \<Rightarrow> False
        | Some v \<Rightarrow> (\<exists>vpc \<in> set (find_vpc db v). vp_virtualization_type vpc = Fnn))
     \<and> (\<forall>p \<in> set (seg_prefixes s). np_svi_ip p = None)"

definition update_network_segments_svi_ip ::
    "('n4, 'n6) api_site \<Rightarrow> ('n4, 'n6, 'd) segment_db \<Rightarrow> ('n4, 'n6, 'd) segment_db" where
  "update_network_segments_svi_ip site db =
     fold (\<lambda>s d. case allocate_svi_ip (as_pkg site) (as_show_id site) s d of Inr (_, d') \<Rightarrow> d' | Inl _ \<Rightarrow> d)
       (filter (needs_svi_ip db) (select_segments db (\<lambda>_. True))) db"

section \<open>The invariant of the tables\<close>

text \<open>Identifiers are unique, prefixes belong to segments and do not overlap, VLAN ids are unique, and a stored
  definition names its segment.\<close>

definition tables_ok :: "('n4, 'n6) ipnetwork_pkg \<Rightarrow> ('n4, 'n6, 'd) segment_db \<Rightarrow> bool" where
  "tables_ok pkg db \<longleftrightarrow>
     distinct (map fst (db_segments db))
     \<and> (\<forall>p \<in> set (db_prefixes db). np_segment_id p \<in> fst ` set (db_segments db))
     \<and> sorted_wrt (\<lambda>p q. \<not> nets_overlap pkg (np_prefix p) (np_prefix q)) (db_prefixes db)
     \<and> (\<forall>(n, sid, d) \<in> set (db_network_defs db). \<exists>r. map_of (db_segments db) sid = Some r \<and> sc_name (sr_config r) = n)
     \<and> (\<forall>i j r s v. map_of (db_segments db) i = Some r \<longrightarrow> map_of (db_segments db) j = Some s
          \<longrightarrow> ss_vlan_id (sr_status r) = Some v \<longrightarrow> ss_vlan_id (sr_status s) = Some v \<longrightarrow> i = j)"

lemma tables_okD:
  assumes "tables_ok pkg db"
  shows "distinct (map fst (db_segments db))"
    and "p \<in> set (db_prefixes db) \<Longrightarrow> np_segment_id p \<in> fst ` set (db_segments db)"
    and "sorted_wrt (\<lambda>p q. \<not> nets_overlap pkg (np_prefix p) (np_prefix q)) (db_prefixes db)"
    and "(n, sid, d) \<in> set (db_network_defs db) \<Longrightarrow> \<exists>r. map_of (db_segments db) sid = Some r \<and> sc_name (sr_config r) = n"
    and "map_of (db_segments db) i = Some r \<Longrightarrow> map_of (db_segments db) j = Some s
      \<Longrightarrow> ss_vlan_id (sr_status r) = Some v \<Longrightarrow> ss_vlan_id (sr_status s) = Some v \<Longrightarrow> i = j"
  using assms unfolding tables_ok_def by blast+

lemma tables_okI:
  assumes "distinct (map fst (db_segments db))"
    and "\<And>p. p \<in> set (db_prefixes db) \<Longrightarrow> np_segment_id p \<in> fst ` set (db_segments db)"
    and "sorted_wrt (\<lambda>p q. \<not> nets_overlap pkg (np_prefix p) (np_prefix q)) (db_prefixes db)"
    and "\<And>n sid d. (n, sid, d) \<in> set (db_network_defs db) \<Longrightarrow> \<exists>r. map_of (db_segments db) sid = Some r \<and> sc_name (sr_config r) = n"
    and "\<And>i j r s v. map_of (db_segments db) i = Some r \<Longrightarrow> map_of (db_segments db) j = Some s
      \<Longrightarrow> ss_vlan_id (sr_status r) = Some v \<Longrightarrow> ss_vlan_id (sr_status s) = Some v \<Longrightarrow> i = j"
  shows "tables_ok pkg db"
  unfolding tables_ok_def using assms by blast

lemma tables_ok_cong:
  "db_segments db' = db_segments db \<Longrightarrow> db_prefixes db' = db_prefixes db \<Longrightarrow> db_network_defs db' = db_network_defs db
     \<Longrightarrow> tables_ok pkg db' = tables_ok pkg db"
  by (simp add: tables_ok_def)

lemma map_fst_map_entry: "map fst (AList.map_entry k f al) = map fst al"
  by (induction al) auto

lemma tables_ok_update:
  assumes ok: "tables_ok pkg db" and f: "\<And>r. sc_name (sr_config (f r)) = sc_name (sr_config r)"
    "\<And>r. ss_vlan_id (sr_status (f r)) = ss_vlan_id (sr_status r)"
  shows "tables_ok pkg (update_segment sid f db)"
proof -
  let ?db = "update_segment sid f db"
  have m: "map_of (db_segments ?db) i = (if i = sid then map_option f (map_of (db_segments db) i) else map_of (db_segments db) i)" for i
    by (simp add: update_segment_def map_of_map_entry split: option.split)
  have e: "\<exists>r'. map_of (db_segments ?db) i = Some r' \<and> sc_name (sr_config r') = sc_name (sr_config r)
      \<and> ss_vlan_id (sr_status r') = ss_vlan_id (sr_status r)" if "map_of (db_segments db) i = Some r" for i r
    using that by (auto simp: m f)
  have v: "\<exists>r. map_of (db_segments db) i = Some r \<and> ss_vlan_id (sr_status r) = ss_vlan_id (sr_status r')"
    if "map_of (db_segments ?db) i = Some r'" for i r'
    using that by (auto simp: m f split: if_splits)
  have defs: "\<forall>(n, i, d) \<in> set (db_network_defs db). \<exists>r. map_of (db_segments ?db) i = Some r \<and> sc_name (sr_config r) = n"
    using ok e by (fastforce simp: tables_ok_def)
  have vlan: "i = j" if "map_of (db_segments ?db) i = Some r" "map_of (db_segments ?db) j = Some s"
      "ss_vlan_id (sr_status r) = Some x" "ss_vlan_id (sr_status s) = Some x" for i j r s x
    using v [OF that(1)] v [OF that(2)] that(3,4) ok by (auto simp: tables_ok_def)
  have "map fst (db_segments ?db) = map fst (db_segments db)" "db_prefixes ?db = db_prefixes db"
    "db_network_defs ?db = db_network_defs db"
    by (simp_all add: update_segment_def map_fst_map_entry)
  then show ?thesis using ok defs vlan by (simp add: tables_ok_def flip: set_map)
qed

lemma insert_segment_ok:
  assumes ok: "tables_ok pkg db" and ins: "insert_segment clk v st ns db = Inr db'"
  shows "tables_ok pkg db' \<and> (\<exists>r. map_of (db_segments db') (nns_id ns) = Some r \<and> sc_name (sr_config r) = nns_name ns)"
proof -
  from ins obtain r where k: "segment_row_ok db ns" and db': "db' = db\<lparr>db_segments := db_segments db @ [(nns_id ns, r)]\<rparr>"
    and r: "ss_vlan_id (sr_status r) = nns_vlan_id ns" "sc_name (sr_config r) = nns_name ns"
    by (auto simp: insert_segment_def split: if_splits)
  from k have new: "map_of (db_segments db) (nns_id ns) = None" and fr: "nns_id ns \<notin> fst ` set (db_segments db)"
    by (auto simp: segment_row_ok_def map_of_eq_None_iff)
  have m: "map_of (db_segments db') i = (if i = nns_id ns then Some r else map_of (db_segments db) i)" for i
    using new by (simp add: db' map_add_def split: option.split)
  have vl: "ss_vlan_id (sr_status s) \<noteq> nns_vlan_id ns" if "map_of (db_segments db) i = Some s" "nns_vlan_id ns = Some x" for i s x
    using k that map_of_SomeD [OF that(1)] by (auto simp: segment_row_ok_def)
  have defs: "\<forall>(n, i, d) \<in> set (db_network_defs db). \<exists>r. map_of (db_segments db') i = Some r \<and> sc_name (sr_config r) = n"
    using ok new by (fastforce simp: tables_ok_def m)
  have vlan: "i = j" if "map_of (db_segments db') i = Some a" "map_of (db_segments db') j = Some b"
      "ss_vlan_id (sr_status a) = Some x" "ss_vlan_id (sr_status b) = Some x" for i j a b x
  proof (cases "i = nns_id ns \<or> j = nns_id ns")
    case True
    with that vl [of i a x] vl [of j b x] r(1) show ?thesis by (auto simp: m split: if_splits)
  next
    case False
    with that ok show ?thesis by (auto simp: m tables_ok_def)
  qed
  have "tables_ok pkg db'" using ok fr defs vlan by (auto simp: tables_ok_def db')
  then show ?thesis using r(2) by (simp add: m)
qed

lemma nets_overlap_sym: "nets_overlap pkg a b \<longleftrightarrow> nets_overlap pkg b a"
  by (auto simp: nets_overlap_def)

lemma insert_prefix_ok:
  assumes "tables_ok pkg db" "insert_prefix pkg pid sid p db = Inr db'"
  shows "tables_ok pkg db' \<and> db_segments db' = db_segments db"
proof -
  from assms(2) obtain row where "prefix_row_ok pkg db row = Inr ()" "db' = db\<lparr>db_prefixes := db_prefixes db @ [row]\<rparr>"
    by (auto simp: insert_prefix_def Let_def elim!: bind_res_InrE)
  with assms(1) show ?thesis
    by (auto simp: tables_ok_def prefix_row_ok_def sorted_wrt_append nets_overlap_sym split: if_splits)
qed

lemma create_for_ok:
  "tables_ok pkg db \<Longrightarrow> create_for pkg draw sid ps db = Inr db' \<Longrightarrow> tables_ok pkg db' \<and> db_segments db' = db_segments db"
proof (induction ps arbitrary: draw db)
  case (Cons p ps)
  then obtain db1 where db1: "insert_prefix pkg (draw 0) sid p db = Inr db1"
      "create_for pkg (\<lambda>i. draw (Suc i)) sid ps db1 = Inr db'" by (auto elim!: bind_res_InrE)
  note i = insert_prefix_ok [OF Cons.prems(1) db1(1)]
  from Cons.IH [OF conjunct1 [OF i] db1(2)] i show ?case by simp
qed simp

lemma record_state_tables [simp]:
  "tables_ok pkg (record_state clk sid st v db) = tables_ok pkg db" "db_segments (record_state clk sid st v db) = db_segments db"
  by (simp_all add: record_state_def tables_ok_def)

lemma persist_segment_ok:
  assumes ok: "tables_ok pkg db" and p: "persist_segment pkg draw clk v ns st db = Inr (db', s)"
  shows "tables_ok pkg db' \<and> (\<exists>r. map_of (db_segments db') (nns_id ns) = Some r \<and> sc_name (sr_config r) = nns_name ns)"
proof -
  from p obtain db1 db2 where ins: "insert_segment clk v st ns db = Inr db1"
    and cr: "create_for pkg draw (nns_id ns) (nns_prefixes ns) db1 = Inr db2"
    and db': "db' = record_state clk (nns_id ns) st v db2"
    by (auto simp: persist_segment_def Let_def elim!: bind_res_InrE split: list.split_asm)
  note i = insert_segment_ok [OF ok ins]
  from create_for_ok [OF conjunct1 [OF i] cr] i show ?thesis by (simp add: db')
qed

lemma set_svi_ip_ok:
  assumes "tables_ok pkg db" "set_svi_ip pid a db = Inr db'"
  shows "tables_ok pkg db' \<and> db_segments db' = db_segments db"
proof -
  from assms(2) have db': "db' = db\<lparr>db_prefixes := map (\<lambda>p. if np_id p = pid then p\<lparr>np_svi_ip := Some a\<rparr> else p) (db_prefixes db)\<rparr>"
    by (simp add: set_svi_ip_def split: if_split_asm)
  have "np_prefix (if c then p\<lparr>np_svi_ip := x\<rparr> else p) = np_prefix p"
    "np_segment_id (if c then p\<lparr>np_svi_ip := x\<rparr> else p) = np_segment_id p" for c x and p :: "('a, 'b) network_prefix"
    by simp_all
  with assms(1) show ?thesis
    by (auto simp: tables_ok_def sorted_wrt_map db' simp del: map_of_eq_Some_iff)
qed

lemma allocate_svi_loop_ok:
  "tables_ok pkg db \<Longrightarrow> allocate_svi_loop pkg' show_id ty sid ps x db = Inr (y, db') \<Longrightarrow>
     tables_ok pkg db' \<and> db_segments db' = db_segments db"
proof (induction ps arbitrary: x db)
  case (Cons p ps)
  show ?case
  proof (cases "np_svi_ip p")
    case None
    with Cons.prems(2) obtain a db1 where s: "set_svi_ip (np_id p) a db = Inr db1"
      and l: "allocate_svi_loop pkg' show_id ty sid ps (if x = None then Some a else x) db1 = Inr (y, db')"
      by (auto elim!: bind_res_InrE)
    note i = set_svi_ip_ok [OF Cons.prems(1) s]
    from Cons.IH [OF conjunct1 [OF i] l] i show ?thesis by simp
  next
    case (Some a)
    with Cons.prems have "allocate_svi_loop pkg' show_id ty sid ps (if x = None then Some a else x) db = Inr (y, db')" by simp
    from Cons.IH [OF Cons.prems(1) this] show ?thesis .
  qed
qed simp

lemma allocate_svi_ip_ok:
  assumes "tables_ok pkg db" "allocate_svi_ip pkg' show_id s db = Inr (a, db')"
  shows "tables_ok pkg db' \<and> db_segments db' = db_segments db"
proof -
  from assms(2) obtain y where
    "allocate_svi_loop pkg' show_id (sc_segment_type (sr_config (seg_row s))) (seg_id s) (seg_prefixes s) None db = Inr (y, db')"
    by (auto simp: allocate_svi_ip_def elim!: bind_res_InrE)
  from allocate_svi_loop_ok [OF assms(1) this] show ?thesis .
qed

lemma allocate_number_ok:
  "allocate_number env parse pool what oid db = Inr (v, db') \<Longrightarrow> tables_ok pkg db \<Longrightarrow> tables_ok pkg db'"
  by (erule tables_ok_cong [THEN iffD2, rotated 3])
     (auto simp: allocate_number_def split: prod.split_asm sum.split_asm pool_error.split_asm)

lemma save_ok:
  assumes ok: "tables_ok (as_pkg site) db" and sv: "save site env ns ready svi db = Inr (db', s)"
  shows "tables_ok (as_pkg site) db' \<and> (\<exists>r. map_of (db_segments db') (nns_id ns) = Some r \<and> sc_name (sr_config r) = nns_name ns)"
proof -
  from sv obtain ns1 db1 db2 seg where
      pre: "(if nns_segment_type ns \<noteq> Underlay then
              bind_res (allocate_vlan_id site env (nns_name ns) db) (\<lambda>(vlan, db1).
              bind_res (allocate_vni site env (nns_name ns) db1) (\<lambda>(vni, db2).
                Inr (ns\<lparr>nns_vlan_id := Some vlan, nns_vni := Some vni\<rparr>, db2)))
            else Inr (ns, db)) = Inr (ns1, db1)"
    and per: "persist_segment (as_pkg site) (ae_draw env) (ae_time env) (ae_version env) ns1
              (if ready then SegReady else SegProvisioning) db1 = Inr (db2, seg)"
    and post: "if svi then \<exists>a. allocate_svi_ip (as_pkg site) (as_show_id site) seg db2 = Inr (a, db') else db' = db2"
    by (auto simp: save_def elim!: bind_res_InrE split: sum.split_asm db_error.split_asm if_split_asm list.split_asm prod.split_asm)
  have pre': "tables_ok (as_pkg site) db1 \<and> nns_id ns1 = nns_id ns \<and> nns_name ns1 = nns_name ns"
  proof (cases "nns_segment_type ns = Underlay")
    case False
    with pre obtain vlan dba vni where "allocate_vlan_id site env (nns_name ns) db = Inr (vlan, dba)"
        "allocate_vni site env (nns_name ns) dba = Inr (vni, db1)"
        "ns1 = ns\<lparr>nns_vlan_id := Some vlan, nns_vni := Some vni\<rparr>"
      by (auto elim!: bind_res_InrE)
    with ok show ?thesis by (auto simp: allocate_vlan_id_def allocate_vni_def dest!: allocate_number_ok)
  qed (use pre ok in auto)
  with persist_segment_ok [OF _ per] have "tables_ok (as_pkg site) db2
      \<and> (\<exists>r. map_of (db_segments db2) (nns_id ns) = Some r \<and> sc_name (sr_config r) = nns_name ns)" by simp
  with post allocate_svi_ip_ok show ?thesis by (metis (no_types))
qed

lemma fold_res_keeps:
  assumes "fold_res f xs s = Inr s'" "ok s" "\<And>x s s'. x \<in> set xs \<Longrightarrow> ok s \<Longrightarrow> f x s = Inr s' \<Longrightarrow> ok s'"
  shows "ok s'"
  using assms
proof (induction xs arbitrary: s)
  case (Cons x xs)
  then obtain t where t: "f x s = Inr t" "fold_res f xs t = Inr s'" by (auto elim!: bind_res_InrE)
  have "ok t" by (rule Cons.prems(3) [OF _ Cons.prems(2) t(1)]) simp
  from Cons.IH [OF t(2) this] Cons.prems(3) show ?case by (meson list.set_intros(2))
qed simp

lemma insert_network_def_ok:
  assumes "tables_ok pkg db" "insert_network_def name sid d db = Inr db'"
    "\<exists>r. map_of (db_segments db) sid = Some r \<and> sc_name (sr_config r) = name"
  shows "tables_ok pkg db'"
  using assms by (auto simp: insert_network_def_def tables_ok_def simp del: map_of_eq_Some_iff split: if_split_asm)

lemma reconcile_network_def_ok:
  assumes ok: "tables_ok pkg db" and r: "reconcile_network_def stored nd db = Inr db'"
  shows "tables_ok pkg db'"
proof (cases "db' = db")
  case False
  with r obtain sid where c: "map fst (filter (\<lambda>ir. sc_name (sr_config (snd ir)) = fst nd) (db_segments db)) = [sid]"
    and i: "insert_network_def (fst nd) sid (snd nd) db = Inr db'"
    by (auto simp: reconcile_network_def_def split: option.split_asm bool.split_asm list.split_asm)
  from c have "sid \<in> set (map fst (filter (\<lambda>ir. sc_name (sr_config (snd ir)) = fst nd) (db_segments db)))" by simp
  then obtain row where "(sid, row) \<in> set (db_segments db)" "sc_name (sr_config row) = fst nd" by auto
  with ok have "\<exists>r. map_of (db_segments db) sid = Some r \<and> sc_name (sr_config r) = fst nd" by (auto simp: tables_ok_def)
  from insert_network_def_ok [OF ok i this] show ?thesis .
qed (simp add: ok)

lemma reconcile_ok: "tables_ok pkg db \<Longrightarrow> reconcile_network_defs declared db = Inr db' \<Longrightarrow> tables_ok pkg db'"
  unfolding reconcile_network_defs_def by (erule fold_res_keeps) (auto intro: reconcile_network_def_ok)

lemma build_from_id: "build_from parse i name domn d = Inr ns \<Longrightarrow> nns_id ns = i \<and> nns_name ns = name"
  by (auto simp: build_from_def elim!: bind_res_InrE)

lemma create_initial_network_ok:
  assumes ok: "tables_ok (as_pkg site) db" and c: "create_initial_network site env domn nd db = Inr db'"
  shows "tables_ok (as_pkg site) db'"
proof (cases "find_by_name db (fst nd)")
  case (Inl e)
  with c obtain ns db1 s where b: "build_from (as_parse_net site) (ae_fresh env) (fst nd) domn (snd nd) = Inr ns"
    and s: "save site env (ns\<lparr>nns_can_stretch := Some True\<rparr>) True False db = Inr (db1, s)"
    and i: "insert_network_def (fst nd) (nns_id ns) (snd nd) db1 = Inr db'"
    by (auto simp: create_initial_network_def elim!: bind_res_InrE)
  note sv = save_ok [OF ok s]
  have "\<exists>r. map_of (db_segments db1) (nns_id ns) = Some r \<and> sc_name (sr_config r) = fst nd"
    using sv build_from_id [OF b] by simp
  from insert_network_def_ok [OF conjunct1 [OF sv] i this] show ?thesis .
qed (use assms in \<open>simp add: create_initial_network_def\<close>)

lemma ensure_static_ok:
  assumes ok: "tables_ok (as_pkg site) db" and c: "ensure_static_assignments_segment site env domn db = Inr db'"
  shows "tables_ok (as_pkg site) db'"
proof (cases "find_by_name db STATIC_ASSIGNMENTS_SEGMENT_NAME")
  case (Inl e)
  with c obtain ns s where "save site env ns True False db = Inr (db', s)"
    by (auto simp: ensure_static_assignments_segment_def elim!: bind_res_InrE split: sum.split_asm)
  from save_ok [OF ok this] show ?thesis by simp
next
  case (Inr s)
  with c ok show ?thesis by (simp add: ensure_static_assignments_segment_def)
qed

lemma create_initial_networks_ok:
  assumes ok: "tables_ok (as_pkg site) db" and c: "create_initial_networks site envs networks db = Inr db'"
  shows "tables_ok (as_pkg site) db'"
proof (cases "\<exists>domn. db_domains db = [domn]")
  case True
  with c obtain domn db1 db2 where r: "reconcile_network_defs networks db = Inr db1"
    and f: "fold_res (\<lambda>nd. create_initial_network site (envs (fst nd)) domn nd) networks db1 = Inr db2"
    and e: "ensure_static_assignments_segment site (envs STATIC_ASSIGNMENTS_SEGMENT_NAME) (Some domn) db2 = Inr db'"
    by (auto simp: create_initial_networks_def elim!: bind_res_InrE)
  have "tables_ok (as_pkg site) db2"
    using f reconcile_ok [OF ok r] by (rule fold_res_keeps) (auto intro: create_initial_network_ok)
  from ensure_static_ok [OF this e] show ?thesis .
next
  case False
  with c ok show ?thesis by (auto simp: create_initial_networks_def split: list.split_asm)
qed

lemma update_svi_ok:
  assumes ok: "tables_ok pkg db"
  shows "tables_ok pkg (update_network_segments_svi_ip site db)"
proof -
  have "tables_ok pkg (fold (\<lambda>s d. case allocate_svi_ip (as_pkg site) (as_show_id site) s d of Inr (_, d') \<Rightarrow> d' | Inl _ \<Rightarrow> d) ss d)"
    if "tables_ok pkg d" for ss d
    using that
  proof (induction ss arbitrary: d)
    case (Cons s ss)
    have "tables_ok pkg (case allocate_svi_ip (as_pkg site) (as_show_id site) s d of Inr (_, d') \<Rightarrow> d' | Inl _ \<Rightarrow> d)"
      using Cons.prems by (auto dest: allocate_svi_ip_ok split: sum.split)
    from Cons.IH [OF this] show ?case by simp
  qed simp
  with ok show ?thesis by (simp add: update_network_segments_svi_ip_def)
qed

lemma map_of_filter_neq: "map_of (filter (\<lambda>ir. fst ir \<noteq> k) al) i = (if i = k then None else map_of al i)"
  by (induction al) auto

lemma removed_ok:
  assumes ok: "tables_ok pkg db"
  shows "tables_ok pkg (segment_removed pool_vlan_id pool_vni sid status db)" (is "tables_ok pkg ?db")
proof (rule tables_okI)
  have m: "map_of (db_segments ?db) i = (if i = sid then None else map_of (db_segments db) i)" for i
    by (simp add: segment_removed_def map_of_filter_neq)
  show "distinct (map fst (db_segments ?db))"
    using tables_okD(1) [OF ok] by (simp add: segment_removed_def distinct_map_filter)
  show "sorted_wrt (\<lambda>p q. \<not> nets_overlap pkg (np_prefix p) (np_prefix q)) (db_prefixes ?db)"
    using tables_okD(3) [OF ok] by (simp add: segment_removed_def sorted_wrt_filter)
  show "np_segment_id p \<in> fst ` set (db_segments ?db)" if "p \<in> set (db_prefixes ?db)" for p
    using tables_okD(2) [OF ok, of p] that by (auto simp: segment_removed_def)
  show "\<exists>r. map_of (db_segments ?db) i = Some r \<and> sc_name (sr_config r) = n" if "(n, i, d) \<in> set (db_network_defs ?db)" for n i d
    using tables_okD(4) [OF ok, of n i d] that by (simp add: m) (simp add: segment_removed_def)
  show "i = j" if "map_of (db_segments ?db) i = Some r" "map_of (db_segments ?db) j = Some s"
      "ss_vlan_id (sr_status r) = Some v" "ss_vlan_id (sr_status s) = Some v" for i j r s v
    using tables_okD(5) [OF ok _ _ that(3,4), of i j] that(1,2) by (simp add: m split: if_split_asm)
qed

lemma set_deleted_keeps: "sc_name (sr_config (set_deleted clk r)) = sc_name (sr_config r)"
  "ss_vlan_id (sr_status (set_deleted clk r)) = ss_vlan_id (sr_status r)"
  by (simp_all add: set_deleted_def)

lemma mark_as_deleted_ok: "tables_ok pkg db \<Longrightarrow> mark_as_deleted clk sid db = Inr db' \<Longrightarrow> tables_ok pkg db'"
  by (auto simp: mark_as_deleted_def set_deleted_keeps intro!: tables_ok_update split: if_split_asm)

lemma mark_many_as_updates:
  "distinct (map fst al) \<Longrightarrow> distinct ids \<Longrightarrow>
     map (\<lambda>(i, r). (i, if i \<in> set ids then f r else r)) al = fold (\<lambda>i. AList.map_entry i f) ids al"
proof (induction ids arbitrary: al)
  case (Cons k ids)
  have e1: "AList.map_entry k f al = map (\<lambda>(i, r). (i, if i = k then f r else r)) al"
    using Cons.prems(1) by (induction al) (auto simp: image_iff intro!: map_idI [symmetric])
  have e2: "map (\<lambda>(i, r). (i, if i \<in> set (k # ids) then f r else r)) al
      = map (\<lambda>(i, r). (i, if i \<in> set ids then f r else r)) (map (\<lambda>(i, r). (i, if i = k then f r else r)) al)"
    using Cons.prems(2) by auto
  have "map (\<lambda>(i, r). (i, if i \<in> set ids then f r else r)) (AList.map_entry k f al)
      = fold (\<lambda>i. AList.map_entry i f) ids (AList.map_entry k f al)"
    by (rule Cons.IH) (use Cons.prems in \<open>simp_all add: map_fst_map_entry\<close>)
  then show ?case by (simp only: e2 fold.simps o_apply e1)
qed (simp add: case_prod_unfold)

lemma fold_update_ok:
  "tables_ok pkg db \<Longrightarrow> tables_ok pkg (db\<lparr>db_segments := fold (\<lambda>i. AList.map_entry i (set_deleted clk)) ids (db_segments db)\<rparr>)"
proof (induction ids arbitrary: db)
  case (Cons i ids)
  from tables_ok_update [OF Cons.prems, of "set_deleted clk" i]
  have "tables_ok pkg (update_segment i (set_deleted clk) db)" by (simp add: set_deleted_keeps)
  from Cons.IH [OF this] show ?case by (simp add: update_segment_def)
qed simp

lemma mark_no_validation_ok:
  assumes ok: "tables_ok pkg db" and m: "mark_as_deleted_no_validation clk ids db = Inr (i, db')"
  shows "tables_ok pkg db'"
proof -
  from m have "db' = db\<lparr>db_segments := map (\<lambda>(i, r). (i, if i \<in> set (remdups ids) then set_deleted clk r else r)) (db_segments db)\<rparr>"
    by (auto simp: mark_as_deleted_no_validation_def split: list.split_asm)
  also have "map (\<lambda>(i, r). (i, if i \<in> set (remdups ids) then set_deleted clk r else r)) (db_segments db)
      = fold (\<lambda>i. AList.map_entry i (set_deleted clk)) (remdups ids) (db_segments db)"
    by (rule mark_many_as_updates) (use ok in \<open>simp_all add: tables_ok_def\<close>)
  finally show ?thesis using fold_update_ok [OF ok] by simp
qed

subsection \<open>Everything that happens to the tables\<close>

inductive segment_step :: "('n4, 'n6) api_site \<Rightarrow> ('n4, 'n6, 'd::linorder) segment_db \<Rightarrow> ('n4, 'n6, 'd) segment_db \<Rightarrow> bool"
  for site where
  created: "create_segment site env request db = Inr (db', s) \<Longrightarrow> segment_step site db db'"
| delete_requested: "delete_segment_request site env i db = Inr db' \<Longrightarrow> segment_step site db db'"
| marked_with_instance: "mark_as_deleted_no_validation clk ids db = Inr (i, db') \<Longrightarrow> segment_step site db db'"
| attached: "set_vpc_id_and_can_stretch sid vpc db = Inr db' \<Longrightarrow> segment_step site db db'"
| started: "create_initial_networks site envs networks db = Inr db' \<Longrightarrow> segment_step site db db'"
| svi_updated: "segment_step site db (update_network_segments_svi_ip site db)"
| controlled: "env_others senv db = db \<Longrightarrow>
    process_object (segment_io (as_pkg site) show_id show_err fault since clk)
      (segment_handler (as_pool_vlan_id site) (as_pool_vni site) senv) show_id show_state env db sid = (db', m)
    \<Longrightarrow> segment_step site db db'"
| elsewhere: "db_segments db' = db_segments db \<Longrightarrow> db_prefixes db' = db_prefixes db
    \<Longrightarrow> db_network_defs db' = db_network_defs db \<Longrightarrow> segment_step site db db'"

lemma segment_io_keeps: "io_keeps (tables_ok pkg) (segment_io pkg' show_id show_err fault since clk)"
proof -
  have "tables_ok pkg db'" if "tables_ok pkg db" "try_update_controller_state sid old new cs db = (b, db')"
    for db db' sid old new cs b
    using that by (auto simp: try_update_controller_state_def intro!: tables_ok_update split: option.split_asm if_split_asm)
  moreover have "tables_ok pkg (update_controller_state_outcome sid po db)" if "tables_ok pkg db" for sid po db
    unfolding update_controller_state_outcome_def by (rule tables_ok_update [OF that]) simp_all
  ultimately show ?thesis by (auto simp: io_keeps_def segment_io_def)
qed

lemma segment_handler_keeps:
  assumes "tables_ok pkg db" "env_others senv db = db"
  shows "handler_keeps (tables_ok pkg) (segment_handler pool_vlan_id pool_vni senv sid sn cs db)"
proof -
  have "tables_ok pkg t" if h: "handle_object_state pool_vlan_id pool_vni senv sid sn cs db = Inr o'"
      "fst (take_transaction o') = Some t" for o' t
  proof (cases "\<exists>l x. o' = Deleted l x")
    case True
    then obtain l x where "o' = Deleted l x" by blast
    with handler_deleted [of pool_vlan_id pool_vni senv sid sn cs db l x] h
    have "t = segment_removed pool_vlan_id pool_vni sid (sr_status (seg_row sn)) db" by auto
    with removed_ok [OF assms(1)] show ?thesis by simp
  next
    case False
    with handler_txn [OF h] assms(1) show ?thesis by simp
  qed
  then show ?thesis using assms by (simp add: handler_keeps_def segment_handler_def Let_def)
qed

lemma segment_step_ok: "segment_step site db db' \<Longrightarrow> tables_ok (as_pkg site) db \<Longrightarrow> tables_ok (as_pkg site) db'"
proof (induction rule: segment_step.induct)
  case (created env request db db' s)
  then obtain ns svi where "save site env ns False svi db = Inr (db', s)"
    by (auto simp: create_segment_def elim!: bind_res_InrE)
  from save_ok [OF created.prems this] show ?case by simp
next
  case (delete_requested env i db db')
  then show ?case
    by (auto simp: delete_segment_request_def elim!: bind_res_InrE split: list.split_asm dest: mark_as_deleted_ok)
next
  case (marked_with_instance clk ids db i db')
  then show ?case by (auto dest: mark_no_validation_ok)
next
  case (attached sid vpc db db')
  then have "db' = update_segment sid (\<lambda>r. r\<lparr>sr_config := (sr_config r)\<lparr>sc_vpc_id := Some vpc\<rparr>,
      sr_status := (sr_status r)\<lparr>ss_can_stretch := Some True\<rparr>\<rparr>) db"
    by (simp add: set_vpc_id_and_can_stretch_def split: if_split_asm)
  with tables_ok_update [OF attached.prems] show ?case by simp
next
  case (started envs networks db db')
  then show ?case by (auto dest: create_initial_networks_ok)
next
  case (svi_updated db)
  then show ?case by (rule update_svi_ok)
next
  case (controlled senv db show_id show_err fault since clk show_state env sid db' m)
  from process_object_keeps [OF segment_io_keeps controlled.prems, of
      "segment_handler (as_pool_vlan_id site) (as_pool_vni site) senv" sid "as_pkg site" show_id show_err fault since clk show_id show_state env]
    segment_handler_keeps [OF controlled.prems controlled.hyps(1)] controlled.hyps(2)
  show ?case by simp
next
  case (elsewhere db' db)
  then show ?case using tables_ok_cong [of db' db] by simp
qed

section \<open>Which segment an address belongs to\<close>

context ip_networks
begin

lemma common_address_overlap:
  assumes "contains_addr pkg a x" "contains_addr pkg b x"
  shows "nets_overlap pkg a b"
proof -
  from assms have "cell x \<in> cells pkg a \<inter> cells pkg b" by (simp add: contains_iff)
  then have "cells pkg a \<subseteq> cells pkg b \<or> cells pkg b \<subseteq> cells pkg a" using cells_laminar [of a b] by blast
  then show ?thesis using network_in_cells [of a] network_in_cells [of b] by (auto simp: nets_overlap_def contains_iff)
qed

end

lemma disjoint_prefixes:
  assumes "sorted_wrt (\<lambda>p q. \<not> nets_overlap pkg (np_prefix p) (np_prefix q)) ps" "p \<in> set ps" "q \<in> set ps"
    "nets_overlap pkg (np_prefix p) (np_prefix q)"
  shows "p = q"
  using assms
proof (induction ps)
  case (Cons r ps)
  then show ?case using nets_overlap_sym [of pkg] by auto
qed simp

lemma one_segment_per_address:
  assumes pkg: "ip_networks pkg" and ok: "tables_ok pkg db"
    and i: "has_relay_prefix pkg db [a] i" and j: "has_relay_prefix pkg db [a] j"
  shows "i = j"
proof -
  from i obtain p where p: "p \<in> set (db_prefixes db)" "np_segment_id p = i" "contains_addr pkg (np_prefix p) a"
    by (auto simp: has_relay_prefix_def)
  from j obtain q where q: "q \<in> set (db_prefixes db)" "np_segment_id q = j" "contains_addr pkg (np_prefix q) a"
    by (auto simp: has_relay_prefix_def)
  from ip_networks.common_address_overlap [OF pkg p(3) q(3)] have "p = q"
    by (rule disjoint_prefixes [OF tables_okD(3) [OF ok] p(1) q(1)])
  with p(2) q(2) show ?thesis by simp
qed

lemma filter_unique_key:
  assumes "distinct (map fst al)" "\<And>i j. P i \<Longrightarrow> P j \<Longrightarrow> i = j" "(k, v) \<in> set al" "P k"
  shows "filter (\<lambda>ir. P (fst ir)) al = [(k, v)]"
  using assms
proof (induction al)
  case (Cons x al)
  show ?case
  proof (cases "x = (k, v)")
    case True
    with Cons.prems have "\<forall>y \<in> set al. \<not> P (fst y)" by (metis distinct.simps(2) fst_conv image_eqI list.simps(9) set_map)
    with True Cons.prems(4) show ?thesis by (simp add: filter_empty_conv)
  next
    case False
    with Cons.prems have k: "(k, v) \<in> set al" by simp
    then have "\<not> P (fst x)" using Cons.prems by (metis distinct.simps(2) fst_conv image_eqI list.simps(9) set_map)
    with Cons.IH [OF _ Cons.prems(2) k Cons.prems(4)] Cons.prems(1) show ?thesis by simp
  qed
qed simp

text \<open>
  C16. A relay address identifies its network segment: with the invariant of the tables, looking up the segment
  of an address never reports several segments; it returns the one segment with a prefix that contains the
  address, and nothing exactly when no prefix of a segment contains it.
\<close>

theorem relay_lookup_unambiguous:
  assumes "ip_networks pkg" "tables_ok pkg db"
  shows "for_relay pkg db a =
    (case find (\<lambda>p. contains_addr pkg (np_prefix p) a) (db_prefixes db) of
       None \<Rightarrow> Inr None
     | Some p \<Rightarrow> Inr (Some (snapshot db False (np_segment_id p, the (map_of (db_segments db) (np_segment_id p))))))"
proof (cases "find (\<lambda>p. contains_addr pkg (np_prefix p) a) (db_prefixes db)")
  case None
  then have "\<not> has_relay_prefix pkg db [a] i" for i by (auto simp: find_None_iff has_relay_prefix_def)
  with None show ?thesis by (simp add: for_relay_def for_relay_all_def select_segments_def)
next
  case (Some p)
  then have p: "p \<in> set (db_prefixes db)" "contains_addr pkg (np_prefix p) a"
    by (auto simp: find_Some_iff)
  let ?i = "np_segment_id p"
  from tables_okD(2) [OF assms(2) p(1)] obtain r where r: "map_of (db_segments db) ?i = Some r"
    using map_of_eq_None_iff [of "db_segments db" ?i] by (cases "map_of (db_segments db) ?i") auto
  have h: "has_relay_prefix pkg db [a] ?i" using p by (auto simp: has_relay_prefix_def)
  have "filter (\<lambda>ir. has_relay_prefix pkg db [a] (fst ir)) (db_segments db) = [(?i, r)]"
    using one_segment_per_address [OF assms, of a] map_of_SomeD [OF r] h
    by (intro filter_unique_key [OF tables_okD(1) [OF assms(2)]]) blast+
  with Some r show ?thesis by (simp add: for_relay_def for_relay_all_def select_segments_def)
qed


end
