(* ===== verification/Segment_Liveness.thy ===== *)
theory Segment_Liveness
  imports Segment_Handler
begin

text \<open>
  Progress of the segment lifecycle: a segment whose deletion was requested and that nothing uses any more is
  removed from the database by finitely many runs of the state controller, whatever its state is, when the
  runs meet no failure and the clock passes every deadline.
\<close>

section \<open>Runs in which nothing fails\<close>

record ('n4, 'n6, 'd) segment_run =
  run_env :: "('n4, 'n6, 'd) segment_env"
  run_txn :: "'d txn_env"
  run_clock :: 'd

definition healthy_run :: "('n4, 'n6, 'd) segment_run \<Rightarrow> bool" where
  "healthy_run run \<longleftrightarrow> healthy_txn (run_txn run) \<and> (\<forall>c. env_failure (run_env run) c = None)"

record ('n4, 'n6, 'd) segment_site =
  site_pkg :: "('n4, 'n6) ipnetwork_pkg"
  site_show_id :: "u128 \<Rightarrow> string"
  site_show_err :: "db_error \<Rightarrow> string"
  site_show_state :: "'d segment_state \<Rightarrow> string"
  site_since :: "'d \<Rightarrow> 'd \<Rightarrow> int"
  site_pool_vlan_id :: resource_pool
  site_pool_vni :: resource_pool

definition segment_pass ::
    "('n4, 'n6, 'd::linorder) segment_site \<Rightarrow> u128 \<Rightarrow> ('n4, 'n6, 'd) segment_run \<Rightarrow> ('n4, 'n6, 'd) segment_db
       \<Rightarrow> ('n4, 'n6, 'd) segment_db" where
  "segment_pass site sid run db =
     fst (process_object
       (segment_io (site_pkg site) (site_show_id site) (site_show_err site) (\<lambda>_. None) (site_since site) (run_clock run))
       (segment_handler (site_pool_vlan_id site) (site_pool_vni site) (run_env run))
       (site_show_id site) (site_show_state site) (run_txn run) db sid)"

text \<open>A segment that can be deleted: requested, unused, and loading it succeeds.\<close>

definition doomed :: "('n4, 'n6, 'd) segment_site \<Rightarrow> u128 \<Rightarrow> 'd segment_state \<Rightarrow> ('n4, 'n6, 'd) segment_db \<Rightarrow> bool" where
  "doomed site sid st db \<longleftrightarrow> segment_idle db sid
     \<and> (\<exists>s. load_segment (site_pkg site) (site_show_id site) db sid = Inr (Some s) \<and> is_marked_as_deleted (seg_row s)
           \<and> ver_value (ss_controller_state (sr_status (seg_row s))) = st)"

text \<open>The processes beside the controller leave the segment alone.\<close>

definition undisturbed :: "u128 \<Rightarrow> (('n4, 'n6, 'd) segment_db \<Rightarrow> ('n4, 'n6, 'd) segment_db) \<Rightarrow> ('n4, 'n6, 'd) segment_site \<Rightarrow> bool" where
  "undisturbed sid others site \<longleftrightarrow>
     (\<forall>db st. doomed site sid st db \<longrightarrow>
        doomed site sid st (others db) \<and> map_of (db_segments (others db)) sid = map_of (db_segments db) sid)"

section \<open>What a run leaves unchanged\<close>

lemma fst_map_entry: "fst ` set (AList.map_entry k f al) = fst ` set al"
  by (induction al) auto

lemma filter_map_entry:
  "filter (\<lambda>ir. fst ir = k) al = [(k, r)] \<Longrightarrow> filter (\<lambda>ir. fst ir = k) (AList.map_entry k f al) = [(k, f r)]"
  by (induction al) (auto split: if_splits)

lemma used_prefixes_cong:
  "fst ` set (db_segments db') = fst ` set (db_segments db) \<Longrightarrow> db_addresses db' = db_addresses db
     \<Longrightarrow> db_interfaces db' = db_interfaces db \<Longrightarrow> used_prefixes pkg db' ty sid busy = used_prefixes pkg db ty sid busy"
  by (simp add: used_prefixes_def used_prefixes_overlay_def used_prefixes_admin_def used_ips_admin_def)

lemma load_segment_single:
  "load_segment pkg show_id db sid = Inr (Some s) \<longleftrightarrow>
     (\<exists>r. filter (\<lambda>ir. fst ir = sid) (db_segments db) = [(sid, r)]
        \<and> update_num_free_ips pkg db (snapshot db False (sid, r)) = Inr s)"
  (is "?l \<longleftrightarrow> ?r")
proof
  assume ?l
  let ?irs = "filter (\<lambda>ir. fst ir = sid) (db_segments db)"
  from \<open>?l\<close> have "collect_res (update_num_free_ips pkg db) (map (snapshot db False) ?irs) = Inr [s]"
    by (auto simp: load_segment_def find_by_def id_column_def Let_def elim!: bind_res_InrE split: list.split_asm)
  from collect_res_list_all2 [OF this] obtain ir where ir: "?irs = [ir]" "update_num_free_ips pkg db (snapshot db False ir) = Inr s"
    by (auto simp: list_all2_Cons2 map_eq_Cons_conv)
  have "ir \<in> set ?irs" by (simp only: ir(1) list.set insertI1)
  then have "ir = (sid, snd ir)" by auto
  with ir show ?r by metis
next
  assume ?r
  then show ?l by (auto simp: load_segment_def find_by_def id_column_def)
qed

lemma load_segment_update:
  assumes l: "load_segment pkg show_id db sid = Inr (Some s)" and f: "\<And>r. sr_config (f r) = sr_config r"
  shows "load_segment pkg show_id (update_segment sid f db) sid = Inr (Some (s\<lparr>seg_row := f (seg_row s)\<rparr>))"
proof -
  from l obtain r where r: "filter (\<lambda>ir. fst ir = sid) (db_segments db) = [(sid, r)]"
      "update_num_free_ips pkg db (snapshot db False (sid, r)) = Inr s" by (auto simp: load_segment_single)
  let ?db = "update_segment sid f db"
  have "update_num_free_ips pkg ?db (snapshot ?db False (sid, f r)) = Inr (s\<lparr>seg_row := f (seg_row s)\<rparr>)"
    using r(2) used_prefixes_cong [of ?db db]
    by (auto simp: update_num_free_ips_def snapshot_def prefixes_of_def update_segment_def fst_map_entry f
        elim!: bind_res_InrE split: list.split_asm list.split option.split_asm sum.split_asm)
  moreover have "filter (\<lambda>ir. fst ir = sid) (db_segments ?db) = [(sid, f r)]"
    using filter_map_entry [OF r(1)] by (simp add: update_segment_def)
  ultimately show ?thesis by (auto simp: load_segment_single)
qed

lemma load_segment_record [simp]: "load_segment pkg show_id (record_state clk sid cs v db) i = load_segment pkg show_id db i"
proof -
  let ?db = "record_state clk sid cs v db"
  have u: "used_prefixes pkg ?db ty i busy = used_prefixes pkg db ty i busy" for ty i busy
    by (rule used_prefixes_cong) (simp_all add: record_state_def)
  have "update_num_free_ips pkg ?db = update_num_free_ips pkg db"
    by (rule ext) (simp add: update_num_free_ips_def u split: list.split)
  moreover have "snapshot ?db False = snapshot db False"
    by (rule ext) (simp add: snapshot_def prefixes_of_def record_state_def)
  ultimately show ?thesis by (simp add: load_segment_def find_by_def Let_def) (simp add: record_state_def)
qed

lemma idle_update [simp]:
  "segment_idle (update_segment i f db) sid = segment_idle db sid"
  "segment_idle (record_state clk i cs v db) sid = segment_idle db sid"
  by (simp_all add: segment_idle_def count_interfaces_def count_addresses_def update_segment_def record_state_def)

lemma doomed_set_state:
  "doomed site sid st db \<Longrightarrow> doomed site sid st' (update_segment sid (\<lambda>r. r\<lparr>sr_status := (sr_status r)\<lparr>ss_controller_state :=
     \<lparr>ver_value = st', ver_version = v\<rparr>\<rparr>\<rparr>) db)"
  by (auto simp: doomed_def load_segment_update is_marked_as_deleted_def)

lemma doomed_outcome: "doomed site sid st db \<Longrightarrow> doomed site sid st (update_controller_state_outcome sid po db)"
  by (auto simp: doomed_def load_segment_update is_marked_as_deleted_def update_controller_state_outcome_def)

lemma doomed_record [simp]: "doomed site sid st (record_state clk sid cs v db) = doomed site sid st db"
  by (simp add: doomed_def)

section \<open>One run\<close>

text \<open>The snapshot a run starts from and the tables its handler sees.\<close>

lemma pass_cases:
  assumes d: "doomed site sid st db" and h: "healthy_run run" and u: "undisturbed sid (env_others (run_env run)) site"
  obtains sn db1 where "doomed site sid st db1" "map_of (db_segments db1) sid = Some (seg_row sn)" "seg_id sn = sid"
    "is_marked_as_deleted (seg_row sn)" "ver_value (ss_controller_state (sr_status (seg_row sn))) = st"
    "segment_pass site sid run db = fst (finish_object
       (segment_io (site_pkg site) (site_show_id site) (site_show_err site) (\<lambda>_. None) (site_since site) (run_clock run))
       (run_txn run) sid (ss_controller_state (sr_status (seg_row sn)))
       (time_above_sla (segment_state_sla (site_since site) (run_clock run) st
          (ver_version (ss_controller_state (sr_status (seg_row sn)))))) db1
       (handle_object_state (site_pool_vlan_id site) (site_pool_vni site) (run_env run) sid sn st db1) [])"
proof -
  from d obtain sn where l: "load_segment (site_pkg site) (site_show_id site) db sid = Inr (Some sn)"
    and m: "is_marked_as_deleted (seg_row sn)" and v: "ver_value (ss_controller_state (sr_status (seg_row sn))) = st"
    by (auto simp: doomed_def)
  let ?db1 = "env_others (run_env run) db"
  let ?io = "segment_io (site_pkg site) (site_show_id site) (site_show_err site) (\<lambda>_. None) (site_since site) (run_clock run)"
  let ?cs = "ss_controller_state (sr_status (seg_row sn))"
  have "loaded ?io db sid sn ?cs" using l by (simp add: loaded_def segment_io_def)
  from process_object_healthy [OF _ this] h v
  have "segment_pass site sid run db = fst (finish_object ?io (run_txn run) sid ?cs
      (time_above_sla (segment_state_sla (site_since site) (run_clock run) st (ver_version ?cs))) ?db1
      (handle_object_state (site_pool_vlan_id site) (site_pool_vni site) (run_env run) sid sn st ?db1) [])"
    by (simp add: segment_pass_def healthy_run_def segment_handler_def Let_def) (simp add: segment_io_def)
  moreover from u d load_segment_row [OF l]
  have "doomed site sid st ?db1" "map_of (db_segments ?db1) sid = Some (seg_row sn)" "seg_id sn = sid"
    by (simp_all add: undisturbed_def)
  ultimately show thesis using that m v by blast
qed

text \<open>A transition of the handler is stored.\<close>

lemma pass_transition:
  assumes h: "healthy_txn env" and d: "doomed site sid st db1" and r: "map_of (db_segments db1) sid = Some row"
    and x: "x = None \<or> x = Some db1"
  shows "doomed site sid st' (fst (finish_object
       (segment_io pkg show_id show_err (\<lambda>_. None) since clk) env sid (ss_controller_state (sr_status row)) late db1
       (Inr (Transition st' l x)) []))"
proof -
  let ?v = "ver_version (ss_controller_state (sr_status row))"
  let ?new = "increment ?v (increment_time env)"
  let ?db = "update_segment sid (\<lambda>r. r\<lparr>sr_status := (sr_status r)\<lparr>ss_controller_state :=
     \<lparr>ver_value = st', ver_version = ?new\<rparr>\<rparr>\<rparr>) db1"
  have "fst (finish_object (segment_io pkg show_id show_err (\<lambda>_. None) since clk) env sid (ss_controller_state (sr_status row))
       late db1 (Inr (Transition st' l x)) []) =
      update_controller_state_outcome sid (PTransition (Some l)) (record_state clk sid st' ?new ?db)"
    by (rule finish_transition [OF h x, of _ _ _ _ ?db "record_state clk sid st' ?new ?db"])
       (simp_all add: segment_io_def query_or_def try_update_controller_state_def r)
  then show ?thesis by (simp add: doomed_outcome doomed_set_state [OF d])
qed

lemma pass_moves:
  assumes "doomed site sid st db" and h: "healthy_run run" and "undisturbed sid (env_others (run_env run)) site"
    and t: "\<forall>sn db1. segment_idle db1 sid \<and> seg_id sn = sid \<and> is_marked_as_deleted (seg_row sn) \<longrightarrow>
      (\<exists>l x. handle_object_state (site_pool_vlan_id site) (site_pool_vni site) (run_env run) sid sn st db1 = Inr (Transition st' l x)
         \<and> (x = None \<or> x = Some db1))"
  shows "doomed site sid st' (segment_pass site sid run db)"
proof (rule pass_cases [OF assms(1-3)], goal_cases)
  case (1 sn db1)
  from 1(1) have "segment_idle db1 sid" by (simp add: doomed_def)
  with t 1(3,4) obtain l x where
    "handle_object_state (site_pool_vlan_id site) (site_pool_vni site) (run_env run) sid sn st db1 = Inr (Transition st' l x)"
    and x: "x = None \<or> x = Some db1" by blast
  then show ?case using 1(6) pass_transition [OF _ 1(1,2) x] h by (simp add: healthy_run_def)
qed

lemma pass_provisioning:
  assumes "doomed site sid SegProvisioning db" "healthy_run run" "undisturbed sid (env_others (run_env run)) site"
  shows "doomed site sid SegReady (segment_pass site sid run db)"
  by (rule pass_moves [OF assms]) (simp add: transition_def)

lemma pass_ready:
  assumes "doomed site sid SegReady db" "healthy_run run" "undisturbed sid (env_others (run_env run)) site"
  shows "doomed site sid (SegDeleting (DrainAllocatedIps (drain_deadline (run_env run)))) (segment_pass site sid run db)"
  by (rule pass_moves [OF assms]) (simp add: transition_def)

lemma handle_drain_idle:
  assumes "segment_idle db sid" "\<forall>c. env_failure env c = None"
  shows "handle_drain env sid d db =
     (if d \<le> env_now env then Inr (Transition (SegDeleting DBDelete) (handler_rs, 161) (Some db))
      else Inr (Wait (''Cannot delete from database until draining completes at '' @ to_rfc3339 env d) (handler_rs, 163) (Some db)))"
  using assms by (simp add: handle_drain_def segment_idle_def begin_txn_def db_call_def)

lemma pass_drained:
  assumes "doomed site sid (SegDeleting (DrainAllocatedIps d)) db" "healthy_run run"
    "undisturbed sid (env_others (run_env run)) site" "d \<le> env_now (run_env run)"
  shows "doomed site sid (SegDeleting DBDelete) (segment_pass site sid run db)"
  by (rule pass_moves [OF assms(1-3)]) (use assms(2,4) in \<open>simp add: handle_drain_idle healthy_run_def\<close>)

lemma pass_waits:
  assumes "doomed site sid (SegDeleting (DrainAllocatedIps d)) db" and h: "healthy_run run"
    and "undisturbed sid (env_others (run_env run)) site" and late: "\<not> d \<le> env_now (run_env run)"
  shows "doomed site sid (SegDeleting (DrainAllocatedIps d)) (segment_pass site sid run db)"
proof (rule pass_cases [OF assms(1-3)], goal_cases)
  case (1 sn db1)
  have "handle_object_state (site_pool_vlan_id site) (site_pool_vni site) (run_env run) sid sn
      (SegDeleting (DrainAllocatedIps d)) db1 = Inr (Wait (''Cannot delete from database until draining completes at ''
        @ to_rfc3339 (run_env run) d) (handler_rs, 163) (Some db1))"
    using 1(1,3) h late by (simp add: handle_drain_idle healthy_run_def doomed_def)
  with 1(6) h have "segment_pass site sid run db = update_controller_state_outcome sid
      (PWait (''Cannot delete from database until draining completes at '' @ to_rfc3339 (run_env run) d) (Some (handler_rs, 163))) db1"
    by (simp add: healthy_run_def no_sla_def) (rule finish_wait, simp_all add: segment_io_def query_or_def)
  with doomed_outcome [OF 1(1)] show ?case by simp
qed

lemma handle_db_delete_ok:
  assumes "\<forall>c. env_failure env c = None" "sid \<in> fst ` set (db_segments db)" "count_interfaces db sid = 0"
  shows "handle_db_delete pool_vlan_id pool_vni env sid status db =
     Inr (Deleted (handler_rs, 184) (Some (segment_removed pool_vlan_id pool_vni sid status db)))"
proof -
  have r: "release_value env c pool v db = Inr (db\<lparr>db_pools := release_opt pool v (db_pools db)\<rparr>)" for c pool v db
    using assms(1) by (simp add: release_value_Inr)
  have f: "final_delete sid (db\<lparr>db_pools := p\<rparr>) = Inr (db\<lparr>db_pools := p, db_segments := filter (\<lambda>ir. fst ir \<noteq> sid) (db_segments db),
      db_prefixes := filter (\<lambda>p. np_segment_id p \<noteq> sid) (db_prefixes db),
      db_network_defs := filter (\<lambda>d. fst (snd d) \<noteq> sid) (db_network_defs db)\<rparr>)" for p
    using assms(2,3) by (simp add: final_delete_Inr count_interfaces_def)
  show ?thesis using assms(1)
    by (simp add: handle_db_delete_def begin_txn_def r f db_call_def segment_removed_def)
qed

lemma pass_deletes:
  assumes "doomed site sid (SegDeleting DBDelete) db" and h: "healthy_run run"
    and "undisturbed sid (env_others (run_env run)) site"
  shows "map_of (db_segments (segment_pass site sid run db)) sid = None"
proof (rule pass_cases [OF assms], goal_cases)
  case (1 sn db1)
  from 1(2) have "sid \<in> fst ` set (db_segments db1)" by (metis domI dom_map_of_conv_image_fst)
  with 1(1) h have "handle_object_state (site_pool_vlan_id site) (site_pool_vni site) (run_env run) sid sn
      (SegDeleting DBDelete) db1 = Inr (Deleted (handler_rs, 184)
        (Some (segment_removed (site_pool_vlan_id site) (site_pool_vni site) sid (sr_status (seg_row sn)) db1)))"
    by (simp add: handle_db_delete_ok healthy_run_def doomed_def segment_idle_def)
  with 1(6) h have "segment_pass site sid run db
      = segment_removed (site_pool_vlan_id site) (site_pool_vni site) sid (sr_status (seg_row sn)) db1"
    by (simp add: healthy_run_def finish_deleted)
  then show ?case by (auto simp: segment_removed_def map_of_eq_None_iff)
qed

section \<open>Sequences of runs\<close>

primrec passes ::
    "('n4, 'n6, 'd::linorder) segment_site \<Rightarrow> u128 \<Rightarrow> (nat \<Rightarrow> ('n4, 'n6, 'd) segment_run) \<Rightarrow> ('n4, 'n6, 'd) segment_db \<Rightarrow> nat
       \<Rightarrow> ('n4, 'n6, 'd) segment_db" where
  "passes site sid runs db 0 = db"
| "passes site sid runs db (Suc n) = segment_pass site sid (runs n) (passes site sid runs db n)"

lemma draining_ends:
  assumes ok: "\<forall>n. healthy_run (runs n) \<and> undisturbed sid (env_others (run_env (runs n))) site"
    and N: "\<forall>m \<ge> N. d \<le> env_now (run_env (runs m))"
    and d: "doomed site sid (SegDeleting (DrainAllocatedIps d)) (passes site sid runs db n)"
  shows "\<exists>m. doomed site sid (SegDeleting DBDelete) (passes site sid runs db m)"
  using d
proof (induction "N - n" arbitrary: n)
  case 0
  then have "d \<le> env_now (run_env (runs n))" using N by simp
  with 0(2) ok have "doomed site sid (SegDeleting DBDelete) (passes site sid runs db (Suc n))" by (simp add: pass_drained)
  then show ?case by blast
next
  case (Suc k)
  show ?case
  proof (cases "d \<le> env_now (run_env (runs n))")
    case True
    with Suc(3) ok have "doomed site sid (SegDeleting DBDelete) (passes site sid runs db (Suc n))" by (simp add: pass_drained)
    then show ?thesis by blast
  next
    case False
    with Suc(3) ok have "doomed site sid (SegDeleting (DrainAllocatedIps d)) (passes site sid runs db (Suc n))"
      by (simp add: pass_waits)
    with Suc(1) [of "Suc n"] Suc(2) show ?thesis by simp
  qed
qed

text \<open>
  C5. Deletion completes: a network segment whose deletion was requested, with no interface and no address left
  on it, is gone from the database after finitely many runs of the state controller, whatever state it is in,
  provided the runs meet no failure, nothing else touches the segment meanwhile and the clock passes every
  deadline.
\<close>

theorem requested_deletion_completes:
  assumes "doomed site sid st db"
    and "\<forall>n. healthy_run (runs n) \<and> undisturbed sid (env_others (run_env (runs n))) site"
    and "\<forall>d. \<exists>N. \<forall>m \<ge> N. d \<le> env_now (run_env (runs m))"
  shows "\<exists>n. map_of (db_segments (passes site sid runs db n)) sid = None"
proof -
  have del: ?thesis if "doomed site sid (SegDeleting DBDelete) (passes site sid runs db n)" for n
    using pass_deletes [OF that, of "runs n"] assms(2) by (intro exI [of _ "Suc n"]) simp
  have drain: ?thesis if d: "doomed site sid (SegDeleting (DrainAllocatedIps d)) (passes site sid runs db n)" for d n
  proof -
    from assms(3) obtain N where "\<forall>m \<ge> N. d \<le> env_now (run_env (runs m))" by blast
    from draining_ends [OF assms(2) this d] del show ?thesis by blast
  qed
  have ready: ?thesis if "doomed site sid SegReady (passes site sid runs db n)" for n
    by (rule drain [of "drain_deadline (run_env (runs n))" "Suc n"]) (simp add: pass_ready [OF that] assms(2))
  show ?thesis
  proof (cases st)
    case SegProvisioning
    with assms(1,2) have "doomed site sid SegReady (passes site sid runs db (Suc 0))" by (simp add: pass_provisioning)
    then show ?thesis by (rule ready)
  next
    case SegReady
    with assms(1) ready [of 0] show ?thesis by simp
  next
    case (SegDeleting d)
    with assms(1) drain [of _ 0] del [of 0] show ?thesis by (cases d) simp_all
  qed
qed

definition example_site :: "(32 ref_net, 128 ref_net, nat) segment_site" where
  "example_site = \<lparr>site_pkg = ref_ipnetwork, site_show_id = \<lambda>_. ''segment'', site_show_err = \<lambda>_. ''error'',
     site_show_state = \<lambda>_. ''state'', site_since = \<lambda>a b. int a - int b,
     site_pool_vlan_id = \<lparr>pool_name = ''vlan-id'', pool_value_type = IntegerType\<rparr>,
     site_pool_vni = \<lparr>pool_name = ''vni'', pool_value_type = IntegerType\<rparr>\<rparr>"

definition example_run :: "nat \<Rightarrow> (32 ref_net, 128 ref_net, nat) segment_run" where
  "example_run n = \<lparr>run_env = \<lparr>env_now = n, env_now_again = n, checked_add_drain = \<lambda>t. Some (t + 5), to_rfc3339 = \<lambda>_. ''later'',
       env_failure = \<lambda>_. None, env_others = \<lambda>db. db, show_db_error = \<lambda>_. ''error''\<rparr>,
     run_txn = \<lparr>begin_load = None, commit_load = None, begin_persist = None, commit_persist = Committed,
       begin_outcome = None, commit_outcome = Committed, increment_time = n, time_limit = NoTimeout\<rparr>,
     run_clock = n\<rparr>"

definition example_segment_row :: "nat segment_state \<Rightarrow> nat option \<Rightarrow> nat segment_row" where
  "example_segment_row st del = \<lparr>sr_version = \<lparr>version_nr = 1, timestamp = 0\<rparr>,
     sr_config = \<lparr>sc_name = ''tenant-a'', sc_subdomain_id = None, sc_mtu = 9000, sc_segment_type = Tenant,
       sc_allocation_strategy = Dynamic, sc_vpc_id = None\<rparr>,
     sr_status = \<lparr>ss_controller_state = \<lparr>ver_value = st, ver_version = \<lparr>version_nr = 1, timestamp = 0\<rparr>\<rparr>, ss_outcome = None,
       ss_vlan_id = Some 100, ss_vni = Some 2000, ss_can_stretch = Some True\<rparr>,
     sr_created = 0, sr_updated = 0, sr_deleted = del\<rparr>"

definition example_segment_db :: "nat segment_state \<Rightarrow> nat option \<Rightarrow> (32 ref_net, 128 ref_net, nat) segment_db" where
  "example_segment_db st del = \<lparr>db_segments = [(7, example_segment_row st del)], db_prefixes = [], db_history = [],
     db_network_defs = [], db_interfaces = [], db_addresses = [], db_pools = [], db_vpcs = [], db_domains = []\<rparr>"

theorem requested_deletion_completes_witness:
  "doomed example_site 7 SegProvisioning (example_segment_db SegProvisioning (Some 0))
   \<and> (\<exists>n. map_of (db_segments (passes example_site 7 example_run (example_segment_db SegProvisioning (Some 0)) n)) 7 = None)"
proof -
  have d: "doomed example_site 7 SegProvisioning (example_segment_db SegProvisioning (Some 0))"
    by (simp add: doomed_def segment_idle_def count_interfaces_def count_addresses_def load_segment_single
        update_num_free_ips_def snapshot_def prefixes_of_def example_segment_db_def example_segment_row_def is_marked_as_deleted_def)
  have r: "\<forall>n. healthy_run (example_run n) \<and> undisturbed 7 (env_others (run_env (example_run n))) example_site"
    by (simp add: healthy_run_def healthy_txn_def undisturbed_def example_run_def)
  have t: "\<forall>d. \<exists>N. \<forall>m \<ge> N. d \<le> env_now (run_env (example_run m))"
    by (auto simp: example_run_def)
  from d requested_deletion_completes [OF d r t] show ?thesis by blast
qed

end
