(* ===== verification/Segment_Facts.thy ===== *)
theory Segment_Facts
  imports Segment_Api Segment_Liveness
begin

text \<open>
  Properties of single operations on network segments: which creation requests are accepted, what a start-up
  does with the stored definitions of networks, which numbers a new segment gets, and the SVI address that the
  allocation of instance addresses does not respect; and the concrete tables the properties are exercised on.
\<close>

section \<open>Creation requests\<close>

lemma new_prefix_Inr:
  "new_network_prefix_try_from parse_net v = Inr p \<longleftrightarrow>
     rnp_id v = None \<and> parse_net (rnp_prefix v) = Inr (nnp_prefix p)
     \<and> (case rnp_gateway v of None \<Rightarrow> nnp_gateway p = None
        | Some g \<Rightarrow> nnp_gateway p \<noteq> None \<and> parse_ip_addr g = nnp_gateway p)
     \<and> nnp_num_reserved p = rnp_reserve_first v"
  by (cases p; cases "rnp_gateway v")
     (auto simp: new_network_prefix_try_from_def bind_res_Inr_iff)

lemma segment_type_try_from_Inr: "segment_type_try_from i = Inr ty \<longleftrightarrow> i = segment_type_as_i32 ty"
  by (cases ty) (auto simp: segment_type_try_from_def)

text \<open>A new segment as every conversion of a request produces it.\<close>

definition new_segment_ok :: "('n4, 'n6) ipnetwork_pkg \<Rightarrow> ('n4, 'n6) new_network_segment \<Rightarrow> bool" where
  "new_segment_ok pkg ns \<longleftrightarrow>
     nns_prefixes ns \<noteq> [] \<and> nns_vlan_id ns = None \<and> nns_vni ns = None \<and> nns_allocation_strategy ns = Dynamic
     \<and> nns_can_stretch ns = (if nns_segment_type ns = Tenant then Some True else None)
     \<and> (nns_segment_type ns = Tenant \<longrightarrow> (\<forall>p \<in> set (nns_prefixes ns). \<not> tiny_prefix pkg (nnp_prefix p)))"


section \<open>Reconciling the configuration file with the stored definitions\<close>

definition unique_segment :: "('n4, 'n6, 'd) segment_db \<Rightarrow> string \<Rightarrow> bool" where
  "unique_segment db name \<longleftrightarrow> length (filter (\<lambda>ir. sc_name (sr_config (snd ir)) = name) (db_segments db)) = 1"

lemma stored_def_None: "stored_def db name = None \<longleftrightarrow> name \<notin> fst ` set (db_network_defs db)"
  by (simp add: stored_def_def map_of_eq_None_iff)

lemma stored_def_segment:
  assumes "tables_ok pkg db" "stored_def db name = Some d"
  shows "segment_exists db name"
proof -
  from assms(2) obtain sid where "map_of (db_network_defs db) name = Some (sid, d)" by (auto simp: stored_def_def)
  from tables_okD(4) [OF assms(1) map_of_SomeD [OF this]] obtain r
    where r: "map_of (db_segments db) sid = Some r" "sc_name (sr_config r) = name" by blast
  from map_of_SomeD [OF r(1)] r(2) show ?thesis unfolding segment_exists_def by (intro bexI [of _ "(sid, r)"]) simp_all
qed

lemma reconcile_step:
  assumes ok: "tables_ok pkg db" and st: "stored (fst nd) = stored_def db (fst nd)"
  shows "\<exists>db'. reconcile_network_def stored nd db = Inr db' \<and> tables_ok pkg db' \<and> db_segments db' = db_segments db
    \<and> (\<forall>name. stored_def db' name = (if name = fst nd \<and> stored_def db name = None \<and> unique_segment db name then Some (snd nd)
         else stored_def db name))"
proof (cases "stored_def db (fst nd) = None \<and> unique_segment db (fst nd)")
  case True
  then obtain sid row where f: "filter (\<lambda>ir. sc_name (sr_config (snd ir)) = fst nd) (db_segments db) = [(sid, row)]"
    by (auto simp: unique_segment_def length_Suc_conv)
  then have "(sid, row) \<in> set (filter (\<lambda>ir. sc_name (sr_config (snd ir)) = fst nd) (db_segments db))" by simp
  then have m: "(sid, row) \<in> set (db_segments db)" "sc_name (sr_config row) = fst nd" by auto
  with tables_okD(1) [OF ok] have r: "map_of (db_segments db) sid = Some row" by simp
  have new: "fst nd \<notin> fst ` set (db_network_defs db)" using True by (simp add: stored_def_None)
  have "sid \<notin> (fst \<circ> snd) ` set (db_network_defs db)"
  proof
    assume "sid \<in> (fst \<circ> snd) ` set (db_network_defs db)"
    then obtain n d where nd: "(n, sid, d) \<in> set (db_network_defs db)" by force
    with tables_okD(4) [OF ok this] r m(2) have "n = fst nd" by simp
    with nd new show False by force
  qed
  with new m(1) have i: "insert_network_def (fst nd) sid (snd nd) db = Inr (db\<lparr>db_network_defs := db_network_defs db @ [(fst nd, sid, snd nd)]\<rparr>)"
    by (force simp: insert_network_def_def)
  have e: "segment_exists db (fst nd)" using m by (auto simp: segment_exists_def intro!: bexI [of _ "(sid, row)"])
  have rec: "reconcile_network_def stored nd db = insert_network_def (fst nd) sid (snd nd) db"
    using True f e by (simp add: reconcile_network_def_def st)
  have "tables_ok pkg (db\<lparr>db_network_defs := db_network_defs db @ [(fst nd, sid, snd nd)]\<rparr>)"
    by (rule insert_network_def_ok [OF ok i]) (use r m(2) in simp)
  then show ?thesis using True rec i
    by (auto simp: stored_def_def map_add_def split: option.split)
next
  case False
  have "reconcile_network_def stored nd db = Inr db"
  proof (cases "stored_def db (fst nd)")
    case None
    have "length (filter (\<lambda>ir. sc_name (sr_config (snd ir)) = fst nd) (db_segments db)) \<noteq> 1"
      using False None by (simp add: unique_segment_def)
    then show ?thesis using None st by (auto simp: reconcile_network_def_def split: bool.split list.split)
  next
    case (Some d)
    with stored_def_segment [OF ok Some] st show ?thesis by (simp add: reconcile_network_def_def)
  qed
  with ok False show ?thesis by auto
qed

lemma unique_segment_cong: "db_segments db' = db_segments db \<Longrightarrow> unique_segment db' = unique_segment db"
  by (simp add: fun_eq_iff unique_segment_def)

lemma reconcile_fold:
  "tables_ok pkg db \<Longrightarrow> distinct (map fst declared) \<Longrightarrow> \<forall>nd \<in> set declared. stored (fst nd) = stored_def db (fst nd) \<Longrightarrow>
     \<exists>db'. fold_res (reconcile_network_def stored) declared db = Inr db' \<and> db_segments db' = db_segments db
       \<and> (\<forall>name. stored_def db' name = (case stored_def db name of Some d \<Rightarrow> Some d
            | None \<Rightarrow> if unique_segment db name then map_of declared name else None))"
proof (induction declared arbitrary: db)
  case (Cons nd declared)
  have "stored (fst nd) = stored_def db (fst nd)" using Cons.prems(3) by simp
  from reconcile_step [of pkg db stored nd, OF Cons.prems(1) this] obtain db1 where
    db1: "reconcile_network_def stored nd db = Inr db1" "tables_ok pkg db1" "db_segments db1 = db_segments db"
    and d1: "\<forall>name. stored_def db1 name = (if name = fst nd \<and> stored_def db name = None \<and> unique_segment db name then Some (snd nd)
         else stored_def db name)" by blast
  have "\<forall>x \<in> set declared. stored (fst x) = stored_def db1 (fst x)"
  proof
    fix x
    assume x: "x \<in> set declared"
    then have "fst x \<noteq> fst nd" using Cons.prems(2) by (metis distinct.simps(2) image_eqI list.simps(9) set_map)
    then show "stored (fst x) = stored_def db1 (fst x)" using Cons.prems(3) x d1 by (metis list.set_intros(2))
  qed
  moreover have "distinct (map fst declared)" using Cons.prems(2) by simp
  ultimately obtain db' where
    db': "fold_res (reconcile_network_def stored) declared db1 = Inr db'" "db_segments db' = db_segments db1"
    and d': "\<forall>name. stored_def db' name = (case stored_def db1 name of Some d \<Rightarrow> Some d
            | None \<Rightarrow> if unique_segment db1 name then map_of declared name else None)"
    using Cons.IH [OF db1(2)] by blast
  have "fst nd \<notin> fst ` set declared" using Cons.prems(2) by simp
  then have "map_of declared (fst nd) = None" by (simp add: map_of_eq_None_iff)
  then have "stored_def db' name = (case stored_def db name of Some d \<Rightarrow> Some d
            | None \<Rightarrow> if unique_segment db name then map_of (nd # declared) name else None)" for name
    using d1 [rule_format, of name] d' [rule_format, of name] unique_segment_cong [OF db1(3)]
    by (cases nd) (simp split: option.split if_split_asm)
  with db1(1,3) db' show ?case by simp
qed (simp split: option.split)

text \<open>
  C23. Start-up reconciles the networks of the configuration file with the stored definitions without ever
  reaching the unreachable branch: it stores the declared definition of a network that has none exactly when
  one segment has its name, and leaves every stored definition and every segment as they are, also when the
  declaration changed or is gone.
\<close>

theorem reconcile_backfills:
  assumes "tables_ok pkg db" "distinct (map fst declared)"
  shows "\<exists>db'. reconcile_network_defs declared db = Inr db' \<and> db_segments db' = db_segments db
    \<and> (\<forall>name. stored_def db' name = (case stored_def db name of Some d \<Rightarrow> Some d
         | None \<Rightarrow> if unique_segment db name then map_of declared name else None))"
  unfolding reconcile_network_defs_def by (rule reconcile_fold [OF assms]) simp

section \<open>The numbers of a new segment\<close>

lemma create_for_frame: "create_for pkg draw sid ps db = Inr db' \<Longrightarrow> \<exists>x. db' = db\<lparr>db_prefixes := x\<rparr>"
proof (induction ps arbitrary: draw db)
  case Nil
  then show ?case by (intro exI [of _ "db_prefixes db"]) simp
next
  case (Cons p ps)
  then obtain db1 x where db1: "db1 = db\<lparr>db_prefixes := x\<rparr>" "create_for pkg (\<lambda>i. draw (Suc i)) sid ps db1 = Inr db'"
    by (auto simp: insert_prefix_def Let_def elim!: bind_res_InrE)
  with Cons.IH [OF db1(2)] show ?case by auto
qed

lemma svi_loop_frame: "allocate_svi_loop pkg show_id ty sid ps x db = Inr (y, db') \<Longrightarrow> \<exists>x. db' = db\<lparr>db_prefixes := x\<rparr>"
proof (induction ps arbitrary: x db)
  case Nil
  then show ?case by (intro exI [of _ "db_prefixes db"]) simp
next
  case (Cons p ps)
  show ?case
  proof (cases "np_svi_ip p")
    case None
    with Cons.prems obtain a db1 q where db1: "db1 = db\<lparr>db_prefixes := q\<rparr>"
      and l: "allocate_svi_loop pkg show_id ty sid ps (if x = None then Some a else x) db1 = Inr (y, db')"
      by (auto simp: set_svi_ip_def elim!: bind_res_InrE split: if_split_asm)
    from Cons.IH [OF l] db1 show ?thesis by auto
  next
    case (Some a)
    with Cons.prems show ?thesis by (auto dest: Cons.IH)
  qed
qed

lemma svi_frame: "allocate_svi_ip pkg show_id s db = Inr (a, db') \<Longrightarrow> \<exists>x. db' = db\<lparr>db_prefixes := x\<rparr>"
  by (auto simp: allocate_svi_ip_def elim!: bind_res_InrE dest: svi_loop_frame)

lemma allocate_number_Inr:
  assumes "allocate_number env parse pool what oid db = Inr (v, db')"
  shows "\<exists>t. allocate show_int parse (ae_locked env) (ae_pick env) (ae_time env) pool (db_pools db) OwnerNetworkSegment oid None = (t, Inr v)
    \<and> db' = db\<lparr>db_pools := t\<rparr>"
  using assms by (auto simp: allocate_number_def split: prod.split_asm sum.split_asm pool_error.split_asm)

lemma insert_segment_row:
  assumes "insert_segment clk v st ns db = Inr db'"
  shows "db_pools db' = db_pools db \<and> (\<exists>r. map_of (db_segments db') (nns_id ns) = Some r \<and> \<not> is_marked_as_deleted r
    \<and> sr_status r = \<lparr>ss_controller_state = \<lparr>ver_value = st, ver_version = v\<rparr>, ss_outcome = None,
         ss_vlan_id = nns_vlan_id ns, ss_vni = nns_vni ns, ss_can_stretch = nns_can_stretch ns\<rparr>)"
proof -
  from assms have ok: "segment_row_ok db ns" by (simp add: insert_segment_def split: if_split_asm)
  then have "map_of (db_segments db) (nns_id ns) = None" by (simp add: segment_row_ok_def map_of_eq_None_iff)
  with assms ok show ?thesis by (auto simp: insert_segment_def map_add_def is_marked_as_deleted_def)
qed

lemma persist_segment_row:
  assumes p: "persist_segment pkg draw clk v ns st db = Inr (db', s)"
  shows "db_pools db' = db_pools db \<and> (\<exists>r. map_of (db_segments db') (nns_id ns) = Some r \<and> \<not> is_marked_as_deleted r
    \<and> sr_status r = \<lparr>ss_controller_state = \<lparr>ver_value = st, ver_version = v\<rparr>, ss_outcome = None,
         ss_vlan_id = nns_vlan_id ns, ss_vni = nns_vni ns, ss_can_stretch = nns_can_stretch ns\<rparr>)"
proof -
  from p obtain db1 db2 where ins: "insert_segment clk v st ns db = Inr db1"
    and cr: "create_for pkg draw (nns_id ns) (nns_prefixes ns) db1 = Inr db2"
    and db': "db' = record_state clk (nns_id ns) st v db2"
    by (auto simp: persist_segment_def Let_def elim!: bind_res_InrE split: list.split_asm)
  from create_for_frame [OF cr] have "db_pools db' = db_pools db1" "db_segments db' = db_segments db1"
    by (auto simp: db' record_state_def)
  with insert_segment_row [OF ins] show ?thesis by simp
qed

lemma save_numbers:
  assumes sv: "save site env ns ready svi db = Inr (db', s)" and ty: "nns_segment_type ns \<noteq> Underlay"
  shows "\<exists>vlan vni t1.
    allocate show_int parse_i16 (ae_locked env) (ae_pick env) (ae_time env) (as_pool_vlan_id site) (db_pools db)
      OwnerNetworkSegment (nns_name ns) None = (t1, Inr vlan)
    \<and> allocate show_int parse_i32 (ae_locked env) (ae_pick env) (ae_time env) (as_pool_vni site) t1
      OwnerNetworkSegment (nns_name ns) None = (db_pools db', Inr vni)
    \<and> (\<exists>r. map_of (db_segments db') (nns_id ns) = Some r \<and> \<not> is_marked_as_deleted r
        \<and> sr_status r = \<lparr>ss_controller_state = \<lparr>ver_value = (if ready then SegReady else SegProvisioning), ver_version = ae_version env\<rparr>,
             ss_outcome = None, ss_vlan_id = Some vlan, ss_vni = Some vni, ss_can_stretch = nns_can_stretch ns\<rparr>)"
proof -
  from sv ty obtain vlan db1 vni db2 db3 seg where
      vl: "allocate_number env parse_i16 (as_pool_vlan_id site) ''pool vlan_id'' (nns_name ns) db = Inr (vlan, db1)"
    and vn: "allocate_number env parse_i32 (as_pool_vni site) ''pool vni'' (nns_name ns) db1 = Inr (vni, db2)"
    and per: "persist_segment (as_pkg site) (ae_draw env) (ae_time env) (ae_version env)
              (ns\<lparr>nns_vlan_id := Some vlan, nns_vni := Some vni\<rparr>)
              (if ready then SegReady else SegProvisioning) db2 = Inr (db3, seg)"
    and post: "if svi then \<exists>a. allocate_svi_ip (as_pkg site) (as_show_id site) seg db3 = Inr (a, db') else db' = db3"
    by (auto simp: save_def allocate_vlan_id_def allocate_vni_def elim!: bind_res_InrE
        split: sum.split_asm db_error.split_asm if_split_asm list.split_asm prod.split_asm)
  have f: "db_pools db' = db_pools db3" "db_segments db' = db_segments db3"
    using post svi_frame [of "as_pkg site" "as_show_id site" seg db3 _ db'] by (auto split: if_split_asm)
  from allocate_number_Inr [OF vl] allocate_number_Inr [OF vn] obtain t1 where
    "allocate show_int parse_i16 (ae_locked env) (ae_pick env) (ae_time env) (as_pool_vlan_id site) (db_pools db)
      OwnerNetworkSegment (nns_name ns) None = (t1, Inr vlan)"
    "allocate show_int parse_i32 (ae_locked env) (ae_pick env) (ae_time env) (as_pool_vni site) t1
      OwnerNetworkSegment (nns_name ns) None = (db_pools db2, Inr vni)" by auto
  moreover from persist_segment_row [OF per] f
  have "db_pools db' = db_pools db2 \<and> (\<exists>r. map_of (db_segments db') (nns_id ns) = Some r \<and> \<not> is_marked_as_deleted r
        \<and> sr_status r = \<lparr>ss_controller_state = \<lparr>ver_value = (if ready then SegReady else SegProvisioning), ver_version = ae_version env\<rparr>,
             ss_outcome = None, ss_vlan_id = Some vlan, ss_vni = Some vni, ss_can_stretch = nns_can_stretch ns\<rparr>)"
    by simp
  ultimately show ?thesis by auto
qed

definition in_bits :: "nat \<Rightarrow> int \<Rightarrow> bool" where
  "in_bits n i \<longleftrightarrow> - (2 ^ n) \<le> i \<and> i < 2 ^ n"

lemma parse_i16_show: "in_bits 15 i \<Longrightarrow> parse_i16 (show_int i) = Inr i"
  by (auto simp: parse_i16_def parse_int_in_def in_bits_def parse_i64_show in_i64_def)

lemma parse_i32_show: "in_bits 31 i \<Longrightarrow> parse_i32 (show_int i) = Inr i"
  by (auto simp: parse_i32_def parse_int_in_def in_bits_def parse_i64_show in_i64_def)

lemma new_segment_fields:
  "new_network_segment_try_from pkg parse_net fresh_id request = Inr ns \<Longrightarrow>
     scr_segment_type request = segment_type_as_i32 (nns_segment_type ns) \<and> (scr_id request = Some i \<longrightarrow> nns_id ns = i)"
  by (auto simp: new_network_segment_try_from_def segment_type_try_from_Inr elim!: bind_res_InrE split: if_split_asm)

lemma create_segment_save:
  assumes "create_segment site env request db = Inr (db', s)"
  shows "\<exists>ns svi. save site env ns False svi db = Inr (db', s) \<and> scr_segment_type request = segment_type_as_i32 (nns_segment_type ns)
    \<and> (scr_id request = Some i \<longrightarrow> nns_id ns = i)"
proof -
  from assms obtain ns svi where n: "new_network_segment_try_from (as_pkg site) (as_parse_net site) (ae_fresh env) request = Inr ns"
    and s: "save site env ns False svi db = Inr (db', s)"
    by (auto simp: create_segment_def elim!: bind_res_InrE)
  from new_segment_fields [OF n, of i] s show ?thesis by blast
qed


section \<open>Concrete tables\<close>

definition example_prefix :: "ip_addr option \<Rightarrow> (32 ref_net, 128 ref_net) network_prefix" where
  "example_prefix svi = \<lparr>np_id = 7, np_segment_id = 7, np_prefix = Inl (mk_net 0 28), np_gateway = None, np_num_reserved = 0,
     np_vpc_prefix_id = None, np_vpc_prefix = None, np_svi_ip = svi, np_num_free_ips = 0\<rparr>"

definition example_tables :: "ip_addr option \<Rightarrow> (32 ref_net, 128 ref_net, nat) segment_db" where
  "example_tables svi = (example_segment_db SegReady None)\<lparr>db_prefixes := [example_prefix svi]\<rparr>"

definition example_number :: "string \<Rightarrow> int \<Rightarrow> bool \<Rightarrow> nat pool_row" where
  "example_number n v taken = \<lparr>pr_name = n, pr_value = show_int v, pr_value_type = IntegerType,
     pr_state = (if taken then Allocated ''tenant-b'' ''network_segment'' else Free),
     pr_state_version = \<lparr>version_nr = 1, timestamp = 0\<rparr>, pr_auto_assign = True, pr_allocated = (if taken then Some 3 else None)\<rparr>"

definition example_start :: "bool \<Rightarrow> bool \<Rightarrow> (32 ref_net, 128 ref_net, nat) segment_db" where
  "example_start vlan vni = (example_segment_db SegReady None)\<lparr>db_pools :=
     [example_number ''vlan-id'' 101 vlan, example_number ''vni'' 2001 vni]\<rparr>"

definition example_parse_net :: "string \<Rightarrow> string + (32 ref_net, 128 ref_net) ip_network" where
  "example_parse_net s = (if s = ''0.0.0.0/28'' then Inr (Inl (mk_net 0 28)) else Inl ''invalid address'')"

definition example_api :: "(32 ref_net, 128 ref_net) api_site" where
  "example_api = \<lparr>as_pkg = ref_ipnetwork, as_parse_net = example_parse_net, as_show_net = \<lambda>_. ''net'', as_show_id = \<lambda>_. ''id'',
     as_is_subnet_of = \<lambda>_ _. False, as_site_fabric_prefixes = None,
     as_pool_vlan_id = \<lparr>pool_name = ''vlan-id'', pool_value_type = IntegerType\<rparr>,
     as_pool_vni = \<lparr>pool_name = ''vni'', pool_value_type = IntegerType\<rparr>\<rparr>"

definition example_api_env :: "nat api_env" where
  "example_api_env = \<lparr>ae_time = 3, ae_version = \<lparr>version_nr = 1, timestamp = 3\<rparr>, ae_fresh = 1, ae_draw = (\<lambda>i. of_nat i),
     ae_locked = \<lambda>_. False, ae_pick = 0\<rparr>"

definition example_request :: segment_creation_request where
  "example_request = \<lparr>scr_id = Some 9, scr_name = ''tenant-b'', scr_subdomain_id = None, scr_vpc_id = None, scr_mtu = None,
     scr_prefixes = [\<lparr>rnp_id = None, rnp_prefix = ''0.0.0.0/28'', rnp_gateway = None, rnp_reserve_first = 0\<rparr>],
     scr_segment_type = 0\<rparr>"

lemmas example_defs = example_prefix_def example_tables_def example_segment_db_def example_segment_row_def example_api_def
  example_api_env_def

lemma example_tables_ok: "tables_ok ref_ipnetwork (example_tables svi)"
  by (simp add: tables_ok_def example_defs)

section \<open>The SVI address of a tenant segment\<close>

lemma example_allocator: "new_allocator [example_prefix svi] [] NextAvailableIp = small_segment []"
  by (simp add: new_allocator_def example_prefix_def small_segment_def small_prefix_def)

lemma small_segment_first:
  "next_network ref_ipnetwork (small_segment [])
     = Some ((small_segment [])\<lparr>al_prefixes := []\<rparr>, Some (7, Inr (Inl (mk_net 1 32))))"
proof -
  have "subnet ref_ipnetwork (Inl (mk_net 0 28)) 32 1 = Inl (mk_net 1 32)"
    by (simp add: subnet_def ref_ipnetwork_def ref_net_ops_def)
  with small_segment_next [of "[]" "[Inl (mk_net 0 32), Inl (mk_net 15 32)]"] small_segment_built_empty show ?thesis by simp
qed

lemma example_overlay: "used_prefixes_overlay (example_tables svi) 7 busy = []"
  by (simp add: used_prefixes_overlay_def example_defs)


section \<open>Witnesses\<close>

theorem relay_lookup_unambiguous_witness:
  "for_relay ref_ipnetwork (example_tables None) (V4Addr 5)
     = Inr (Some (snapshot (example_tables None) False (7, example_segment_row SegReady None)))"
  using relay_lookup_unambiguous [OF ref_networks.ip_networks_axioms example_tables_ok, of None "V4Addr 5"]
  by (simp add: example_defs ref_networks.contains_iff cells_def cell_def dy_def)


definition example_definition :: network_definition where
  "example_definition = \<lparr>nd_segment_type = DefAdmin, nd_prefix = ''0.0.0.0/28'', nd_gateway = ''0.0.0.1'', nd_mtu = 1500,
     nd_reserve_first = 3, nd_allocation_strategy = Dynamic\<rparr>"

theorem reconcile_backfills_witness:
  "\<exists>db'. reconcile_network_defs [(''tenant-a'', example_definition)] (example_tables None) = Inr db'
     \<and> stored_def db' ''tenant-a'' = Some example_definition \<and> stored_def db' ''other'' = None"
proof -
  have "stored_def (example_tables None) n = None" "unique_segment (example_tables None) ''tenant-a''" for n
    by (simp_all add: stored_def_def unique_segment_def example_defs)
  with reconcile_backfills [OF example_tables_ok, of "[(''tenant-a'', example_definition)]" None] show ?thesis by auto
qed


lemma example_numbers: "parse_i16 (show_int 101) = Inr 101" "parse_i32 (show_int 2001) = Inr 2001"
  by (simp_all add: parse_i16_show parse_i32_show in_bits_def)

lemma example_sites:
  "as_pkg example_api = ref_ipnetwork" "as_parse_net example_api = example_parse_net" "as_site_fabric_prefixes example_api = None"
  "ae_fresh example_api_env = 1" "ae_draw example_api_env = (\<lambda>i. of_nat i)" "ae_time example_api_env = 3"
  "ae_version example_api_env = \<lparr>version_nr = 1, timestamp = 3\<rparr>"
  by (simp_all add: example_api_def example_api_env_def)

lemma example_vlan:
  "allocate_vlan_id example_api example_api_env ''tenant-b'' (example_start False False) = Inr (101, example_start True False)"
  by (simp add: allocate_vlan_id_def allocate_number_def allocate_def example_start_def example_number_def stats_def
      count_rows_def candidates_def row_key_def example_api_def example_api_env_def example_numbers set_allocated_def Let_def)

lemma example_vni:
  "allocate_vni example_api example_api_env ''tenant-b'' (example_start True False) = Inr (2001, example_start True True)"
  by (simp add: allocate_vni_def allocate_number_def allocate_def example_start_def example_number_def stats_def
      count_rows_def candidates_def row_key_def example_api_def example_api_env_def example_numbers set_allocated_def Let_def)

lemma example_created: "\<exists>db' s. create_segment example_api example_api_env example_request (example_start False False) = Inr (db', s)"
proof -
  let ?ns = "\<lparr>nns_id = 9, nns_name = ''tenant-b'', nns_subdomain_id = None, nns_vpc_id = None, nns_mtu = 9000,
     nns_prefixes = [\<lparr>nnp_prefix = Inl (mk_net 0 28), nnp_gateway = None, nnp_num_reserved = 0\<rparr>], nns_vlan_id = None, nns_vni = None,
     nns_segment_type = Tenant, nns_can_stretch = Some True, nns_allocation_strategy = Dynamic\<rparr>"
  have ns: "new_network_segment_try_from ref_ipnetwork example_parse_net 1 example_request = Inr ?ns"
    by (simp add: new_network_segment_try_from_def new_network_prefix_try_from_def example_request_def example_parse_net_def
        segment_type_try_from_def tiny_prefix_def DEFAULT_MTU_TENANT_def)
  have "\<exists>r. persist_segment ref_ipnetwork (\<lambda>i. of_nat i) 3 \<lparr>version_nr = 1, timestamp = 3\<rparr>
      (?ns\<lparr>nns_vlan_id := Some 101, nns_vni := Some 2001\<rparr>) SegProvisioning (example_start True True) = Inr r"
    by (simp add: persist_segment_def insert_segment_def segment_row_ok_def insert_prefix_def prefix_row_ok_def example_start_def
        example_segment_db_def example_segment_row_def record_state_def find_by_def id_column_def default_search_def Let_def)
  then show ?thesis
    by (auto simp: create_segment_def save_def check_site_fabric_def check_vpc_def ns example_vlan example_vni
        example_sites)
qed

lemma example_start_inv:
  "pool_inv (in_bits 15) show_int (as_pool_vlan_id example_api) (db_pools (example_start False False))"
  "pool_inv (in_bits 31) show_int (as_pool_vni example_api) (db_pools (example_start False False))"
  by (simp_all add: pool_inv_def pool_keys_distinct_def row_key_def example_start_def example_number_def example_api_def
      in_bits_def)


end
